theory Spec2Isabelle
  imports Complex_Main "HOL-Library.AList"
begin

section \<open>Python floats: IEEE 754 binary64, round to nearest, ties to even\<close>

text \<open>
  The scorer computes with Python \<open>float\<close>s. A float is modelled by its exact value, a
  rational, or by one of the three special values. Every arithmetic operation computes
  the exact rational result and rounds it to the nearest binary64 value (53 significant
  bits, least exponent \<open>-1022\<close>, subnormals below it, overflow to infinity from
  \<open>2 ^ 1024\<close> on). The two zeros are identified: the program never divides by a variable
  and never looks at the sign of a zero.
\<close>

datatype pyfloat = Fin rat | PInf | NInf | NaN

definition round_half_even :: "rat \<Rightarrow> int" where
  "round_half_even q =
     (let f = \<lfloor>q\<rfloor>; d = q - of_int f
      in if d < 1/2 then f else if 1/2 < d then f + 1 else if even f then f else f + 1)"

text \<open>
  The binary exponent of a positive rational, \<open>2 powi ilog2 q \<le> q < 2 powi (ilog2 q + 1)\<close>,
  found by halving or doubling until the value lies in \<open>[1, 2)\<close>.
\<close>

function ilog2 :: "rat \<Rightarrow> int" where
  "ilog2 q =
     (if q \<le> 0 then 0
      else if 2 \<le> q then ilog2 (q / 2) + 1
      else if q < 1 then ilog2 (q * 2) - 1
      else 0)"
  by pat_completeness auto
termination
proof (relation "measure (\<lambda>q. nat (2 * \<lceil>1 / q\<rceil> + \<lfloor>q\<rfloor>))", goal_cases)
  case 1
  then show ?case by simp
next
  case (2 q)
  then have "\<lceil>1 / (q / 2)\<rceil> = 1" "\<lceil>1 / q\<rceil> = 1"
    by (simp_all add: ceiling_eq_iff field_simps)
  moreover have "\<lfloor>q / 2\<rfloor> < \<lfloor>q\<rfloor>" using 2 by (simp add: floor_less_iff) linarith
  moreover have "0 \<le> \<lfloor>q / 2\<rfloor>" using 2 by simp
  ultimately show ?case unfolding in_measure by linarith
next
  case (3 q)
  then have q: "0 < q" "q < 1" by simp_all
  have fq: "\<lfloor>q\<rfloor> = 0" using q by (simp add: floor_eq_iff)
  have c1: "2 \<le> \<lceil>1 / q\<rceil>" using q by (simp add: le_ceiling_iff field_simps)
  show ?case
  proof (cases "1 / 2 \<le> q")
    case True
    then have "\<lceil>1 / (q * 2)\<rceil> = 1" using q by (simp add: ceiling_eq_iff field_simps)
    moreover have "\<lfloor>q * 2\<rfloor> = 1" using q True by (simp add: floor_eq_iff)
    ultimately show ?thesis unfolding in_measure using c1 fq by linarith
  next
    case False
    then have f2: "\<lfloor>q * 2\<rfloor> = 0" using q by (simp add: floor_eq_iff)
    have "1 / (q * 2) \<le> 1 / q - 1" using q False by (simp add: field_simps)
    then have "\<lceil>1 / (q * 2)\<rceil> \<le> \<lceil>1 / q - 1\<rceil>" by (rule ceiling_mono)
    then have "\<lceil>1 / (q * 2)\<rceil> < \<lceil>1 / q\<rceil>" by simp
    moreover have "0 < \<lceil>1 / (q * 2)\<rceil>" using q by simp
    ultimately show ?thesis unfolding in_measure using fq f2 by linarith
  qed
qed

text \<open>The spacing of the binary64 values around \<open>q\<close> (\<open>q \<noteq> 0\<close>).\<close>

definition ulp :: "rat \<Rightarrow> rat" where
  "ulp q = 2 powi (max (ilog2 \<bar>q\<bar>) (- 1022) - 52)"

definition nearest :: "rat \<Rightarrow> rat" where
  "nearest q = (if q = 0 then 0 else of_int (round_half_even (q / ulp q)) * ulp q)"

definition rnd :: "rat \<Rightarrow> pyfloat" where
  "rnd q =
     (let r = nearest q
      in if 2 ^ 1024 \<le> r then PInf
         else if r \<le> - (2 ^ 1024) then NInf
         else Fin r)"

text \<open>A float literal of the source text denotes the binary64 value nearest to it.\<close>

definition lit :: "rat \<Rightarrow> pyfloat" where
  "lit q = rnd q"

fun fadd :: "pyfloat \<Rightarrow> pyfloat \<Rightarrow> pyfloat" where
  "fadd (Fin a) (Fin b) = rnd (a + b)"
| "fadd NaN y = NaN"
| "fadd x NaN = NaN"
| "fadd PInf NInf = NaN"
| "fadd NInf PInf = NaN"
| "fadd PInf y = PInf"
| "fadd NInf y = NInf"
| "fadd (Fin a) y = y"

fun fneg :: "pyfloat \<Rightarrow> pyfloat" where
  "fneg (Fin a) = Fin (- a)"
| "fneg PInf = NInf"
| "fneg NInf = PInf"
| "fneg NaN = NaN"

definition fsub :: "pyfloat \<Rightarrow> pyfloat \<Rightarrow> pyfloat" where
  "fsub x y = fadd x (fneg y)"

fun fsgn :: "pyfloat \<Rightarrow> rat" where
  "fsgn (Fin a) = sgn a"
| "fsgn PInf = 1"
| "fsgn NInf = - 1"
| "fsgn NaN = 0"

fun fmul :: "pyfloat \<Rightarrow> pyfloat \<Rightarrow> pyfloat" where
  "fmul (Fin a) (Fin b) = rnd (a * b)"
| "fmul NaN y = NaN"
| "fmul x NaN = NaN"
| "fmul x y =
     (let s = fsgn x * fsgn y
      in if s = 0 then NaN else if 0 < s then PInf else NInf)"

text \<open>
  True division of floats. Python raises \<open>ZeroDivisionError\<close> on a zero divisor; the
  program divides by the literals \<open>100\<close> and \<open>90\<close> only, so that case is given the value
  \<open>NaN\<close> here and is never reached.
\<close>

fun fdiv :: "pyfloat \<Rightarrow> pyfloat \<Rightarrow> pyfloat" where
  "fdiv (Fin a) (Fin b) = (if b = 0 then NaN else rnd (a / b))"
| "fdiv NaN y = NaN"
| "fdiv x NaN = NaN"
| "fdiv (Fin a) y = Fin 0"
| "fdiv x (Fin b) =
     (if b = 0 then NaN else if 0 < fsgn x * b then PInf else NInf)"
| "fdiv x y = NaN"

fun flt :: "pyfloat \<Rightarrow> pyfloat \<Rightarrow> bool" where
  "flt (Fin a) (Fin b) = (a < b)"
| "flt NaN y = False"
| "flt x NaN = False"
| "flt x NInf = False"
| "flt PInf y = False"
| "flt x y = True"

fun fle :: "pyfloat \<Rightarrow> pyfloat \<Rightarrow> bool" where
  "fle (Fin a) (Fin b) = (a \<le> b)"
| "fle NaN y = False"
| "fle x NaN = False"
| "fle NInf y = True"
| "fle x PInf = True"
| "fle x y = False"

text \<open>
  Python's \<open>min(a, b)\<close> keeps \<open>a\<close> unless \<open>b < a\<close>, and \<open>max(a, b)\<close> keeps \<open>a\<close> unless
  \<open>b > a\<close>; with a \<open>NaN\<close> argument no comparison holds and the first argument is kept.
\<close>

definition pymin :: "pyfloat \<Rightarrow> pyfloat \<Rightarrow> pyfloat" where
  "pymin a b = (if flt b a then b else a)"

definition pymax :: "pyfloat \<Rightarrow> pyfloat \<Rightarrow> pyfloat" where
  "pymax a b = (if flt a b then b else a)"

datatype py_error = KeyError | OverflowError | ValueError

text \<open>
  An \<open>int\<close> operand of a float operation is converted to a float first: rounded to
  nearest, \<open>OverflowError\<close> when it is too large for a float.
\<close>

definition float_of_int :: "int \<Rightarrow> py_error + pyfloat" where
  "float_of_int n =
     (case rnd (of_int n) of Fin r \<Rightarrow> Inr (Fin r) | _ \<Rightarrow> Inl OverflowError)"

definition int_times_float :: "int \<Rightarrow> pyfloat \<Rightarrow> py_error + pyfloat" where
  "int_times_float n x =
     (case float_of_int n of Inl e \<Rightarrow> Inl e | Inr f \<Rightarrow> Inr (fmul f x))"

text \<open>\<open>round(x)\<close> of a float: the nearest integer, ties to even; it raises on infinities and \<open>NaN\<close>.\<close>

fun py_round :: "pyfloat \<Rightarrow> py_error + int" where
  "py_round (Fin a) = Inr (round_half_even a)"
| "py_round NaN = Inl ValueError"
| "py_round x = Inl OverflowError"

definition int_of_bool :: "bool \<Rightarrow> int" where
  "int_of_bool b = (if b then 1 else 0)"

text \<open>
  The values that the rounding leaves alone: an integer significand of at most 53 bits
  times a power of two that is not below the least subnormal. The predicate serves the
  proofs about the rounding; \<open>in_range\<close> and \<open>bounded\<close> say that a float is finite and
  lies between two rationals, or has a magnitude of at most a power of two.
\<close>

definition representable :: "rat \<Rightarrow> bool" where
  "representable a \<longleftrightarrow> (\<exists>m k. a = of_int m * 2 powi k \<and> \<bar>m\<bar> \<le> 2 ^ 53 \<and> - 1074 \<le> k)"

fun in_range :: "rat \<Rightarrow> rat \<Rightarrow> pyfloat \<Rightarrow> bool" where
  "in_range a b (Fin r) = (a \<le> r \<and> r \<le> b)"
| "in_range a b x = False"

definition bounded :: "nat \<Rightarrow> pyfloat \<Rightarrow> bool" where
  "bounded j x \<longleftrightarrow> in_range (- (2 ^ j)) (2 ^ j) x"

section \<open>The scorer\<close>

text \<open>
  The class \<open>CIBILScoreCalculator\<close>: its three constants, the weights in the order of the
  dictionary, and its methods. Parameters have the types of their annotations: a
  \<open>float\<close> is a \<open>pyfloat\<close>, an \<open>int\<close> an unbounded integer. An integer passed for a float,
  as in the sample call, behaves as the float of the same value when it has at most 53
  bits. A method that can raise returns a sum, the exception on the left.
\<close>

definition weights :: "(string \<times> pyfloat) list" where
  "weights =
     [(''payment_history'', lit (35/100)),
      (''credit_utilization'', lit (30/100)),
      (''credit_age'', lit (15/100)),
      (''credit_mix'', lit (10/100)),
      (''new_credit'', lit (10/100))]"

definition MIN_SCORE :: int where
  "MIN_SCORE = 300"

definition MAX_SCORE :: int where
  "MAX_SCORE = 900"

definition SCORE_RANGE :: int where
  "SCORE_RANGE = MAX_SCORE - MIN_SCORE"

definition calculate_payment_history_score :: "pyfloat \<Rightarrow> pyfloat \<Rightarrow> pyfloat" where
  "calculate_payment_history_score on_time_payments_percent days_late_avg =
     (let base_score = fdiv on_time_payments_percent (Fin 100)
      in if flt (Fin 0) days_late_avg
         then let late_penalty = pymin (fdiv days_late_avg (Fin 90)) (Fin 1)
              in fmul base_score (fsub (Fin 1) (fmul late_penalty (lit (5/10))))
         else base_score)"

definition calculate_credit_utilization_score :: "pyfloat \<Rightarrow> pyfloat" where
  "calculate_credit_utilization_score utilization_percent =
     (if fle utilization_percent (Fin 10) then lit (95/100)
      else if fle utilization_percent (Fin 30) then lit 1
      else if fle utilization_percent (Fin 50) then lit (85/100)
      else if fle utilization_percent (Fin 75) then lit (60/100)
      else lit (30/100))"

definition calculate_credit_age_score :: "pyfloat \<Rightarrow> pyfloat" where
  "calculate_credit_age_score years =
     (if fle (Fin 5) years then lit 1
      else if fle (Fin 3) years then lit (85/100)
      else if fle (Fin 1) years then lit (70/100)
      else lit (40/100))"

definition calculate_credit_mix_score :: "int \<Rightarrow> int \<Rightarrow> bool \<Rightarrow> py_error + pyfloat" where
  "calculate_credit_mix_score num_secured_loans num_unsecured_loans has_credit_card =
     (let total_products = num_secured_loans + num_unsecured_loans + int_of_bool has_credit_card
      in if total_products = 0 then Inr (lit (30/100))
         else
           case int_times_float (min num_secured_loans 2) (lit (3/10)) of
             Inl e \<Rightarrow> Inl e
           | Inr secured \<Rightarrow>
           case int_times_float (min num_unsecured_loans 2) (lit (2/10)) of
             Inl e \<Rightarrow> Inl e
           | Inr unsecured \<Rightarrow>
           case int_times_float (int_of_bool has_credit_card) (lit (2/10)) of
             Inl e \<Rightarrow> Inl e
           | Inr credit_card \<Rightarrow>
               let diversity_score = fadd (fadd secured unsecured) credit_card
               in Inr (pymin diversity_score (lit 1)))"

definition calculate_new_credit_score :: "int \<Rightarrow> int \<Rightarrow> py_error + pyfloat" where
  "calculate_new_credit_score num_inquiries_6months num_new_accounts_6months =
     (case int_times_float num_inquiries_6months (lit (15/100)) of
        Inl e \<Rightarrow> Inl e
      | Inr inquiries \<Rightarrow>
      case int_times_float num_new_accounts_6months (lit (20/100)) of
        Inl e \<Rightarrow> Inl e
      | Inr new_accounts \<Rightarrow>
          let inquiry_penalty = pymin inquiries (lit (60/100));
              new_account_penalty = pymin new_accounts (lit (60/100))
          in Inr (fsub (lit 1) (pymax inquiry_penalty new_account_penalty)))"

text \<open>
  The loop of \<open>calculate_final_score\<close> over \<open>components.items()\<close>, in the order of the
  dictionary; \<open>weighted_scores\<close> and \<open>total_score\<close> are the loop's two variables.
  \<open>self.weights[component]\<close> raises \<open>KeyError\<close> for a name that has no weight.
\<close>

fun final_score_loop ::
  "(string \<times> pyfloat) list \<Rightarrow> (string \<times> pyfloat) list \<Rightarrow> pyfloat
     \<Rightarrow> py_error + ((string \<times> pyfloat) list \<times> pyfloat)" where
  "final_score_loop [] weighted_scores total_score = Inr (weighted_scores, total_score)"
| "final_score_loop ((component, score) # rest) weighted_scores total_score =
     (case map_of weights component of
        None \<Rightarrow> Inl KeyError
      | Some w \<Rightarrow>
          let weighted_score = fmul (fmul score w) (Fin (of_int SCORE_RANGE))
          in final_score_loop rest
               (AList.update component weighted_score weighted_scores)
               (fadd total_score weighted_score))"

definition calculate_final_score ::
  "(string \<times> pyfloat) list \<Rightarrow> py_error + (int \<times> (string \<times> pyfloat) list)" where
  "calculate_final_score components =
     (case final_score_loop components [] (Fin 0) of
        Inl e \<Rightarrow> Inl e
      | Inr (weighted_scores, total_score) \<Rightarrow>
          (case py_round (fadd total_score (Fin (of_int MIN_SCORE))) of
             Inl e \<Rightarrow> Inl e
           | Inr final_score \<Rightarrow>
               Inr (max (min final_score MAX_SCORE) MIN_SCORE, weighted_scores)))"

text \<open>
  The entry point builds the dictionary of the five sub-scores in the order of the
  source and hands it to \<open>calculate_final_score\<close>. The two sub-scores that can raise are
  computed first here; the other three never raise, so the exception is the same.
\<close>

definition calculate_score ::
  "pyfloat \<Rightarrow> pyfloat \<Rightarrow> pyfloat \<Rightarrow> pyfloat \<Rightarrow> int \<Rightarrow> int \<Rightarrow> bool \<Rightarrow> int \<Rightarrow> int
     \<Rightarrow> py_error + (int \<times> (string \<times> pyfloat) list)" where
  "calculate_score on_time_payments_percent days_late_avg utilization_percent
       credit_age_years num_secured_loans num_unsecured_loans has_credit_card
       num_inquiries_6months num_new_accounts_6months =
     (case calculate_credit_mix_score num_secured_loans num_unsecured_loans has_credit_card of
        Inl e \<Rightarrow> Inl e
      | Inr credit_mix \<Rightarrow>
      case calculate_new_credit_score num_inquiries_6months num_new_accounts_6months of
        Inl e \<Rightarrow> Inl e
      | Inr new_credit \<Rightarrow>
          calculate_final_score
            [(''payment_history'',
                calculate_payment_history_score on_time_payments_percent days_late_avg),
             (''credit_utilization'', calculate_credit_utilization_score utilization_percent),
             (''credit_age'', calculate_credit_age_score credit_age_years),
             (''credit_mix'', credit_mix),
             (''new_credit'', new_credit)])"

section \<open>The formulas of the specification\<close>

text \<open>
  The sub-score formulas as the specification words them, in the same float arithmetic,
  to be compared with the functions above.
\<close>

definition payment_history_spec :: "pyfloat \<Rightarrow> pyfloat \<Rightarrow> pyfloat" where
  "payment_history_spec p d =
     (if flt (Fin 0) d
      then fmul (fdiv p (Fin 100))
             (fsub (Fin 1) (fmul (pymin (fdiv d (Fin 90)) (Fin 1)) (lit (5/10))))
      else fdiv p (Fin 100))"

definition utilization_spec :: "pyfloat \<Rightarrow> pyfloat" where
  "utilization_spec u =
     (if fle u (Fin 10) then lit (95/100)
      else if flt (Fin 10) u \<and> fle u (Fin 30) then lit 1
      else if flt (Fin 30) u \<and> fle u (Fin 50) then lit (85/100)
      else if flt (Fin 50) u \<and> fle u (Fin 75) then lit (60/100)
      else lit (30/100))"

definition credit_mix_spec :: "int \<Rightarrow> int \<Rightarrow> bool \<Rightarrow> pyfloat" where
  "credit_mix_spec s u c =
     (if s = 0 \<and> u = 0 \<and> \<not> c then lit (30/100)
      else pymin
             (fadd
                (fadd (fmul (Fin (of_int (min s 2))) (lit (3/10)))
                      (fmul (Fin (of_int (min u 2))) (lit (2/10))))
                (fmul (Fin (if c then 1 else 0)) (lit (2/10))))
             (lit 1))"

definition new_credit_spec :: "int \<Rightarrow> int \<Rightarrow> pyfloat" where
  "new_credit_spec i a =
     fsub (lit 1)
       (pymax (pymin (fmul (rnd (of_int i)) (lit (15/100))) (lit (60/100)))
              (pymin (fmul (rnd (of_int a)) (lit (20/100))) (lit (60/100))))"




text \<open>The largest finite float, \<open>(2 ^ 53 - 1) * 2 ^ 971\<close>.\<close>

definition max_float :: rat where
  "max_float = (2 ^ 53 - 1) * 2 ^ 971"

section \<open>Properties of the rounding\<close>

declare ilog2.simps [simp del]

lemma ilog2_bounds: "0 < q \<Longrightarrow> 2 powi ilog2 q \<le> q \<and> q < 2 powi (ilog2 q + 1)"
proof (induction q rule: ilog2.induct)
  case (1 q)
  consider "2 \<le> q" | "q < 1" | "1 \<le> q" "q < 2" by linarith
  then show ?case
  proof cases
    case 1
    have e: "ilog2 q = ilog2 (q / 2) + 1" using 1 by (subst ilog2.simps) simp
    have "2 powi ilog2 (q / 2) \<le> q / 2 \<and> q / 2 < 2 powi (ilog2 (q / 2) + 1)"
      using "1.IH"(1) "1.prems" 1 by simp
    then show ?thesis unfolding e by (simp add: power_int_add)
  next
    case 2
    have e: "ilog2 q = ilog2 (q * 2) - 1" using 2 "1.prems" by (subst ilog2.simps) simp
    have "2 powi ilog2 (q * 2) \<le> q * 2 \<and> q * 2 < 2 powi (ilog2 (q * 2) + 1)"
      using "1.IH"(2) "1.prems" 2 by simp
    then show ?thesis unfolding e by (simp add: power_int_add power_int_diff)
  next
    case 3
    have e: "ilog2 q = 0" using 3 by (subst ilog2.simps) simp
    show ?thesis unfolding e using 3 by simp
  qed
qed

lemma two_powi_less_imp: "(2::rat) powi m < 2 powi n \<Longrightarrow> m < n"
  using power_int_increasing [of n m "2::rat"] by (cases "m < n") simp_all

lemma two_powi_le_imp: "(2::rat) powi m \<le> 2 powi n \<Longrightarrow> m \<le> n"
  using power_int_strict_increasing [of n m "2::rat"] by (cases "m \<le> n") simp_all

lemma ilog2_unique:
  assumes "2 powi e \<le> q" "q < 2 powi (e + 1)"
  shows "ilog2 q = e"
proof -
  have "(0::rat) < 2 powi e" by simp
  then have q: "0 < q" using assms(1) by linarith
  note b = ilog2_bounds [OF q]
  have "2 powi e < (2::rat) powi (ilog2 q + 1)" using assms(1) b by linarith
  then have 1: "e < ilog2 q + 1" by (rule two_powi_less_imp)
  have "2 powi ilog2 q < (2::rat) powi (e + 1)" using assms(2) b by linarith
  then have 2: "ilog2 q < e + 1" by (rule two_powi_less_imp)
  show ?thesis using 1 2 by simp
qed


subsection \<open>Rounding to the nearest integer\<close>

lemma round_half_even_spec:
  "\<bar>q - of_int (round_half_even q)\<bar> \<le> 1/2 \<and>
   (\<bar>q - of_int (round_half_even q)\<bar> = 1/2 \<longrightarrow> even (round_half_even q))"
proof -
  define f where "f = \<lfloor>q\<rfloor>"
  define d where "d = q - of_int f"
  have d: "0 \<le> d" "d < 1" unfolding d_def f_def by linarith+
  have q: "q = of_int f + d" unfolding d_def by simp
  have r: "round_half_even q =
      (if d < 1/2 then f else if 1/2 < d then f + 1 else if even f then f else f + 1)"
    unfolding round_half_even_def Let_def f_def d_def by (rule refl)
  have qf: "q - of_int f = d" "q - (of_int f + 1) = d - 1" unfolding d_def by simp_all
  consider "d < 1/2" | "1/2 < d" | "d = 1/2" "even f" | "d = 1/2" "odd f" by fastforce
  then show ?thesis
  proof cases
    case 1
    then have "round_half_even q = f" unfolding r by simp
    then show ?thesis using 1 d by (simp add: qf)
  next
    case 2
    then have "round_half_even q = f + 1" unfolding r by simp
    then show ?thesis using 2 d by (simp add: qf)
  next
    case 3
    then have "round_half_even q = f" unfolding r by simp
    then show ?thesis using 3 d by (simp add: qf)
  next
    case 4
    then have "round_half_even q = f + 1" unfolding r by simp
    then show ?thesis using 4 d by (simp add: qf)
  qed
qed

lemma round_half_even_unique:
  assumes "\<bar>q - of_int m\<bar> \<le> 1/2" and "\<bar>q - of_int m\<bar> = 1/2 \<longrightarrow> even m"
  shows "round_half_even q = m"
proof (rule ccontr)
  let ?M = "round_half_even q"
  assume ne: "?M \<noteq> m"
  note s = round_half_even_spec [of q]
  have "\<bar>(of_int ?M :: rat) - of_int m\<bar> \<le> 1" using s assms(1) by linarith
  then have "\<bar>(of_int (?M - m) :: rat)\<bar> \<le> 1" by simp
  then have d: "\<bar>?M - m\<bar> \<le> 1" by (metis of_int_abs of_int_le_1_iff)
  then have d1: "\<bar>?M - m\<bar> = 1" using ne by linarith
  then have "\<bar>(of_int ?M :: rat) - of_int m\<bar> = 1"
    by (metis of_int_1 of_int_abs of_int_diff)
  then have "\<bar>q - of_int ?M\<bar> = 1/2" "\<bar>q - of_int m\<bar> = 1/2"
    using s assms(1) by linarith+
  then have "even ?M" "even m" using s assms(2) by simp_all
  then have "even (?M - m)" by simp
  then show False using d1 by presburger
qed

lemma round_half_even_near:
  assumes "\<bar>q - of_int m\<bar> * 2 < 1"
  shows "round_half_even q = m"
proof (rule round_half_even_unique)
  show "\<bar>q - of_int m\<bar> \<le> 1/2" using assms by simp
  show "\<bar>q - of_int m\<bar> = 1/2 \<longrightarrow> even m" using assms by simp
qed

lemma round_half_even_of_int [simp]: "round_half_even (of_int m) = m"
  by (rule round_half_even_near) simp

lemma round_half_even_minus: "round_half_even (- q) = - round_half_even q"
proof (rule round_half_even_unique)
  note s = round_half_even_spec [of q]
  have e: "\<bar>- q - of_int (- round_half_even q)\<bar> = \<bar>q - of_int (round_half_even q)\<bar>"
    by simp
  show "\<bar>- q - of_int (- round_half_even q)\<bar> \<le> 1/2" unfolding e using s by simp
  show "\<bar>- q - of_int (- round_half_even q)\<bar> = 1/2 \<longrightarrow> even (- round_half_even q)"
    unfolding e using s by simp
qed

lemma round_half_even_ge: "of_int m \<le> q \<Longrightarrow> m \<le> round_half_even q"
proof -
  assume a: "of_int m \<le> q"
  note s = round_half_even_spec [of q]
  have "(of_int m :: rat) - 1 < of_int (round_half_even q)" using a s by linarith
  then have "(of_int (m - 1) :: rat) < of_int (round_half_even q)" by simp
  then have "m - 1 < round_half_even q" by (simp only: of_int_less_iff)
  then show ?thesis by simp
qed

lemma round_half_even_le: "q \<le> of_int m \<Longrightarrow> round_half_even q \<le> m"
  using round_half_even_ge [of "- m" "- q"] by (simp add: round_half_even_minus)


subsection \<open>Rounding to the nearest binary64 value\<close>

lemma representableI:
  "a = of_int m * 2 powi k \<Longrightarrow> \<bar>m\<bar> \<le> 2 ^ 53 \<Longrightarrow> - 1074 \<le> k \<Longrightarrow> representable a"
  unfolding representable_def by blast

lemma representable_minus: "representable a \<Longrightarrow> representable (- a)"
proof -
  assume "representable a"
  then obtain m k where "a = of_int m * 2 powi k" "\<bar>m\<bar> \<le> 2 ^ 53" "- 1074 \<le> k"
    unfolding representable_def by blast
  then show ?thesis by (intro representableI [of _ "- m" k]) simp_all
qed

lemma representable_of_int: "\<bar>n\<bar> \<le> 2 ^ 53 \<Longrightarrow> representable (of_int n)"
  by (rule representableI [of _ n 0]) simp_all

lemma two_powi_split:
  assumes "j \<le> k"
  shows "(2::rat) powi k = of_int (2 ^ nat (k - j)) * 2 powi j"
proof -
  have "(2::rat) powi k = 2 powi ((k - j) + j)" by simp
  also have "\<dots> = 2 powi (k - j) * 2 powi j" by (rule power_int_add) simp
  also have "(2::rat) powi (k - j) = 2 ^ nat (k - j)"
    using assms by (simp add: power_int_nonneg_exp)
  finally show ?thesis by simp
qed

lemma ulp_pos: "0 < ulp q"
  unfolding ulp_def by simp

lemma ulp_minus: "ulp (- q) = ulp q"
  unfolding ulp_def by simp

lemma nearest_minus: "nearest (- q) = - nearest q"
  unfolding nearest_def by (simp add: ulp_minus round_half_even_minus)

lemma nearest_ge:
  assumes "representable a" and "a \<le> q"
  shows "a \<le> nearest q"
proof (cases "q = 0")
  case True
  then show ?thesis using assms(2) by (simp add: nearest_def)
next
  case q0: False
  obtain m k where a: "a = of_int m * 2 powi k" and m: "\<bar>m\<bar> \<le> 2 ^ 53" and k: "- 1074 \<le> k"
    using assms(1) unfolding representable_def by blast
  define E where "E = max (ilog2 \<bar>q\<bar>) (- 1022)"
  define u where "u = (2::rat) powi (E - 52)"
  define M where "M = round_half_even (q / u)"
  have u: "0 < u" unfolding u_def by simp
  have n: "nearest q = of_int M * u"
    using q0 unfolding nearest_def ulp_def M_def u_def E_def by simp
  show ?thesis
  proof (cases "E - 52 \<le> k")
    case True
    define m' where "m' = m * 2 ^ nat (k - (E - 52))"
    have "a = of_int m' * u"
      unfolding a m'_def u_def using two_powi_split [OF True] by simp
    then have am': "a = of_int m' * u" .
    then have "of_int m' \<le> q / u" using assms(2) u by (simp add: pos_le_divide_eq)
    then have "m' \<le> M" unfolding M_def by (rule round_half_even_ge)
    then have "(of_int m' :: rat) \<le> of_int M" by simp
    then have "of_int m' * u \<le> of_int M * u" using u by (simp only: mult_le_cancel_right_pos)
    then show ?thesis unfolding n am' .
  next
    case False
    then have E: "E = ilog2 \<bar>q\<bar>" using k unfolding E_def by linarith
    have b: "2 powi E \<le> \<bar>q\<bar>" using ilog2_bounds [of "\<bar>q\<bar>"] q0 unfolding E by simp
    have "\<bar>a\<bar> = of_int \<bar>m\<bar> * 2 powi k" unfolding a by (simp add: abs_mult)
    also have "\<dots> \<le> of_int (2 ^ 53) * 2 powi k"
      using m by (intro mult_right_mono) (simp_all only: of_int_le_iff zero_le_power_int zero_le_numeral)
    also have "\<dots> = 2 powi (53 + k)" by (simp add: power_int_add)
    also have "\<dots> \<le> 2 powi E" using False by (intro power_int_increasing) simp_all
    finally have am: "\<bar>a\<bar> \<le> 2 powi E" .
    have pe: "2 powi E = of_int (2 ^ 52) * u"
      unfolding u_def using two_powi_split [of "E - 52" E] by simp
    show ?thesis
    proof (cases "0 < q")
      case True
      then have "2 powi E \<le> q" using b by simp
      then have "of_int (2 ^ 52) \<le> q / u" using u unfolding pe by (simp add: pos_le_divide_eq)
      then have "2 ^ 52 \<le> M" unfolding M_def by (rule round_half_even_ge)
      then have "(of_int (2 ^ 52) :: rat) \<le> of_int M" by (simp only: of_int_le_iff)
      then have "of_int (2 ^ 52) * u \<le> of_int M * u"
        using u by (simp only: mult_le_cancel_right_pos)
      then show ?thesis using am unfolding n pe [symmetric] by linarith
    next
      case False
      then have "q \<le> - (2 powi E)" using b q0 by linarith
      moreover have "- (2 powi E) \<le> a" using am by linarith
      ultimately have qa: "q = a" "q = - (2 powi E)" using assms(2) by linarith+
      have "q / u = of_int (- (2 ^ 52))" using u unfolding qa(2) pe by simp
      then have "M = - (2 ^ 52)" unfolding M_def by (simp only: round_half_even_of_int)
      then have "nearest q = - (of_int (2 ^ 52) * u)" unfolding n by simp
      then show ?thesis using qa unfolding pe by simp
    qed
  qed
qed

lemma nearest_le:
  assumes "representable a" and "q \<le> a"
  shows "nearest q \<le> a"
  using nearest_ge [of "- a" "- q"] assms by (simp add: representable_minus nearest_minus)

lemma nearest_id: "representable a \<Longrightarrow> nearest a = a"
  using nearest_ge [of a a] nearest_le [of a a] by simp


lemma rnd_finite:
  "- (2 ^ 1024) < nearest q \<Longrightarrow> nearest q < 2 ^ 1024 \<Longrightarrow> rnd q = Fin (nearest q)"
  unfolding rnd_def Let_def by simp

lemma in_rangeI: "x = Fin r \<Longrightarrow> a \<le> r \<Longrightarrow> r \<le> b \<Longrightarrow> in_range a b x"
  by simp

lemma rnd_in_range:
  assumes "representable a" "representable b" "- (2 ^ 1024) < a" "b < 2 ^ 1024"
    and "a \<le> q" "q \<le> b"
  shows "in_range a b (rnd q)"
proof -
  have 1: "a \<le> nearest q" using assms(1,5) by (rule nearest_ge)
  have 2: "nearest q \<le> b" using assms(2,6) by (rule nearest_le)
  have "rnd q = Fin (nearest q)" using 1 2 assms(3,4) by (intro rnd_finite) linarith+
  then show ?thesis using 1 2 by (rule in_rangeI)
qed

lemma rnd_overflow:
  assumes "2 ^ 1024 \<le> q"
  shows "rnd q = PInf"
proof -
  have "representable (2 ^ 1024)" by (rule representableI [of _ 1 1024]) simp_all
  then have "2 ^ 1024 \<le> nearest q" using assms by (rule nearest_ge)
  then show ?thesis unfolding rnd_def Let_def by simp
qed

lemma rnd_lower:
  assumes "representable a" "- (2 ^ 1024) < a" "a \<le> q"
  shows "rnd q = PInf \<or> (\<exists>r. rnd q = Fin r \<and> a \<le> r)"
proof -
  have "a \<le> nearest q" using assms(1,3) by (rule nearest_ge)
  then show ?thesis using assms(2) unfolding rnd_def Let_def by auto
qed

lemma near_bound:
  fixes q t u A P R X :: rat
  assumes "\<bar>q\<bar> < A" "\<bar>q - t\<bar> * 2 \<le> u" "0 < u" "A \<le> P" "u \<le> R" "P + R < X"
  shows "\<bar>t\<bar> < X"
proof -
  define d where "d = \<bar>q - t\<bar>"
  have "d * 2 \<le> u" "0 \<le> d" using assms(2) unfolding d_def by simp_all
  then have "d < u" using assms(3) by linarith
  then have 1: "\<bar>q - t\<bar> < u" unfolding d_def .
  have 2: "A + u \<le> X" using assms(4,5,6) by linarith
  have "\<bar>t\<bar> \<le> \<bar>q\<bar> + \<bar>q - t\<bar>" by (simp add: abs_if)
  then show ?thesis using assms(1) 1 2 by linarith
qed

lemma rnd_eval:
  assumes "2 powi e \<le> \<bar>q\<bar>" "\<bar>q\<bar> < 2 powi (e + 1)" "- 1022 \<le> e" "e \<le> 1022"
    and "\<bar>q - of_int m * 2 powi (e - 52)\<bar> * 2 \<le> 2 powi (e - 52)"
    and "\<bar>q - of_int m * 2 powi (e - 52)\<bar> * 2 = 2 powi (e - 52) \<longrightarrow> even m"
  shows "rnd q = Fin (of_int m * 2 powi (e - 52))"
proof -
  define u where "u = (2::rat) powi (e - 52)"
  have u: "0 < u" unfolding u_def by simp
  have "(0::rat) < 2 powi e" by simp
  then have "0 < \<bar>q\<bar>" using assms(1) by linarith
  then have q0: "q \<noteq> 0" by simp
  have "ilog2 \<bar>q\<bar> = e" using assms(1,2) by (rule ilog2_unique)
  then have ulp: "ulp q = u" unfolding ulp_def u_def using assms(3) by simp
  have d: "\<bar>q / u - of_int m\<bar> = \<bar>q - of_int m * u\<bar> / u"
    using u by (simp add: abs_if field_simps)
  have "round_half_even (q / u) = m"
  proof (rule round_half_even_unique)
    show "\<bar>q / u - of_int m\<bar> \<le> 1 / 2"
      unfolding d using assms(5) u unfolding u_def [symmetric] by (simp add: field_simps)
    show "\<bar>q / u - of_int m\<bar> = 1 / 2 \<longrightarrow> even m"
      unfolding d using assms(6) u unfolding u_def [symmetric] by (simp add: field_simps)
  qed
  then have n: "nearest q = of_int m * u" unfolding nearest_def ulp using q0 by simp
  have "(2::rat) powi (e + 1) \<le> 2 powi 1023" using assms(4) by (intro power_int_increasing) simp_all
  moreover have "u \<le> 2 powi 970" unfolding u_def using assms(4) by (intro power_int_increasing) simp_all
  moreover have "(2::rat) powi 1023 + 2 powi 970 < 2 ^ 1024" by simp
  ultimately have "\<bar>of_int m * u\<bar> < 2 ^ 1024"
    using assms(2,5) u unfolding u_def [symmetric]
    by (intro near_bound [of q "2 powi (e + 1)" "of_int m * u" u "2 powi 1023" "2 powi 970"])
  then have "rnd q = Fin (nearest q)" unfolding n [symmetric] by (intro rnd_finite) linarith+
  then show ?thesis unfolding n u_def .
qed

lemma rnd_evalI:
  assumes "2 powi e \<le> \<bar>q\<bar>" "\<bar>q\<bar> < 2 powi (e + 1)" "- 1022 \<le> e" "e \<le> 1022"
    and "\<bar>q - r\<bar> * 2 < 2 powi (e - 52)" and "r = of_int m * 2 powi (e - 52)"
  shows "rnd q = Fin r"
  using rnd_eval [of e q m] assms by simp

lemma rnd_tieI:
  assumes "2 powi e \<le> \<bar>q\<bar>" "\<bar>q\<bar> < 2 powi (e + 1)" "- 1022 \<le> e" "e \<le> 1022"
    and "\<bar>q - r\<bar> * 2 = 2 powi (e - 52)" and "even m" and "r = of_int m * 2 powi (e - 52)"
  shows "rnd q = Fin r"
  using rnd_eval [of e q m] assms by simp

lemma rnd_zero [simp]: "rnd 0 = Fin 0"
  unfolding rnd_def nearest_def by simp

section \<open>Concrete roundings\<close>

text \<open>
  The roundings that the examples below go through. Each one is certified by its binary
  exponent and its integer significand, which reduce it to comparisons of rationals
  (\<open>rnd_evalI\<close>, and \<open>rnd_tieI\<close> for a tie, which goes to the even significand).
\<close>

text \<open>The float literals of the source, and those of the examples.\<close>

lemma rnd_literals:
  "rnd (7 / 20) = Fin (3152519739159347 / 9007199254740992)"
  "rnd (3 / 10) = Fin (5404319552844595 / 18014398509481984)"
  "rnd (3 / 20) = Fin (5404319552844595 / 36028797018963968)"
  "rnd (1 / 10) = Fin (3602879701896397 / 36028797018963968)"
  "rnd (19 / 20) = Fin (4278419646001971 / 4503599627370496)"
  "rnd 1 = Fin 1"
  "rnd (17 / 20) = Fin (7656119366529843 / 9007199254740992)"
  "rnd (3 / 5) = Fin (5404319552844595 / 9007199254740992)"
  "rnd (7 / 10) = Fin (3152519739159347 / 4503599627370496)"
  "rnd (2 / 5) = Fin (3602879701896397 / 9007199254740992)"
  "rnd (1 / 5) = Fin (3602879701896397 / 18014398509481984)"
  "rnd (1 / 2) = Fin (1 / 2)"
  "rnd (1001 / 100) = Fin (5635129033747333 / 562949953421312)"
  "rnd (3001 / 100) = Fin (8447064051086787 / 281474976710656)"
proof -
  show "rnd (7 / 20) = Fin (3152519739159347 / 9007199254740992)"
    by (rule rnd_evalI [of "- 2" _ _ 6305039478318694]) simp_all
  show "rnd (3 / 10) = Fin (5404319552844595 / 18014398509481984)"
    by (rule rnd_evalI [of "- 2" _ _ 5404319552844595]) simp_all
  show "rnd (3 / 20) = Fin (5404319552844595 / 36028797018963968)"
    by (rule rnd_evalI [of "- 3" _ _ 5404319552844595]) simp_all
  show "rnd (1 / 10) = Fin (3602879701896397 / 36028797018963968)"
    by (rule rnd_evalI [of "- 4" _ _ 7205759403792794]) simp_all
  show "rnd (19 / 20) = Fin (4278419646001971 / 4503599627370496)"
    by (rule rnd_evalI [of "- 1" _ _ 8556839292003942]) simp_all
  show "rnd 1 = Fin 1"
    by (rule rnd_evalI [of "0" _ _ 4503599627370496]) simp_all
  show "rnd (17 / 20) = Fin (7656119366529843 / 9007199254740992)"
    by (rule rnd_evalI [of "- 1" _ _ 7656119366529843]) simp_all
  show "rnd (3 / 5) = Fin (5404319552844595 / 9007199254740992)"
    by (rule rnd_evalI [of "- 1" _ _ 5404319552844595]) simp_all
  show "rnd (7 / 10) = Fin (3152519739159347 / 4503599627370496)"
    by (rule rnd_evalI [of "- 1" _ _ 6305039478318694]) simp_all
  show "rnd (2 / 5) = Fin (3602879701896397 / 9007199254740992)"
    by (rule rnd_evalI [of "- 2" _ _ 7205759403792794]) simp_all
  show "rnd (1 / 5) = Fin (3602879701896397 / 18014398509481984)"
    by (rule rnd_evalI [of "- 3" _ _ 7205759403792794]) simp_all
  show "rnd (1 / 2) = Fin (1 / 2)"
    by (rule rnd_evalI [of "- 1" _ _ 4503599627370496]) simp_all
  show "rnd (1001 / 100) = Fin (5635129033747333 / 562949953421312)"
    by (rule rnd_evalI [of "3" _ _ 5635129033747333]) simp_all
  show "rnd (3001 / 100) = Fin (8447064051086787 / 281474976710656)"
    by (rule rnd_evalI [of "4" _ _ 8447064051086787]) simp_all
qed

text \<open>The roundings in the payment history examples.\<close>

lemma rnd_payment_examples:
  "rnd 2 = Fin 2"
proof -
  show "rnd 2 = Fin 2"
    by (rule rnd_evalI [of "1" _ _ 4503599627370496]) simp_all
qed

text \<open>The roundings in the credit mix examples.\<close>

lemma rnd_mix_examples:
  "rnd (5404319552844595 / 9007199254740992) = Fin (5404319552844595 / 9007199254740992)"
  "rnd (3602879701896397 / 9007199254740992) = Fin (3602879701896397 / 9007199254740992)"
  "rnd (3602879701896397 / 18014398509481984) = Fin (3602879701896397 / 18014398509481984)"
  "rnd (21617278211378381 / 18014398509481984) = Fin (5404319552844595 / 4503599627370496)"
  "rnd (5404319552844595 / 18014398509481984) = Fin (5404319552844595 / 18014398509481984)"
  "rnd (12610078956637389 / 18014398509481984) = Fin (3152519739159347 / 4503599627370496)"
proof -
  show "rnd (5404319552844595 / 9007199254740992) = Fin (5404319552844595 / 9007199254740992)"
    by (rule rnd_evalI [of "- 1" _ _ 5404319552844595]) simp_all
  show "rnd (3602879701896397 / 9007199254740992) = Fin (3602879701896397 / 9007199254740992)"
    by (rule rnd_evalI [of "- 2" _ _ 7205759403792794]) simp_all
  show "rnd (3602879701896397 / 18014398509481984) = Fin (3602879701896397 / 18014398509481984)"
    by (rule rnd_evalI [of "- 3" _ _ 7205759403792794]) simp_all
  show "rnd (21617278211378381 / 18014398509481984) = Fin (5404319552844595 / 4503599627370496)"
    by (rule rnd_evalI [of "0" _ _ 5404319552844595]) simp_all
  show "rnd (5404319552844595 / 18014398509481984) = Fin (5404319552844595 / 18014398509481984)"
    by (rule rnd_evalI [of "- 2" _ _ 5404319552844595]) simp_all
  show "rnd (12610078956637389 / 18014398509481984) = Fin (3152519739159347 / 4503599627370496)"
    by (rule rnd_tieI [of "- 1" _ _ 6305039478318694]) simp_all
qed

text \<open>The roundings in the new credit examples.\<close>

lemma rnd_new_credit_examples:
  "rnd 4 = Fin 4"
  "rnd (3602879701896397 / 4503599627370496) = Fin (3602879701896397 / 4503599627370496)"
  "rnd (5404319552844595 / 36028797018963968) = Fin (5404319552844595 / 36028797018963968)"
  "rnd (30624477466119373 / 36028797018963968) = Fin (7656119366529843 / 9007199254740992)"
proof -
  show "rnd 4 = Fin 4"
    by (rule rnd_evalI [of "2" _ _ 4503599627370496]) simp_all
  show "rnd (3602879701896397 / 4503599627370496) = Fin (3602879701896397 / 4503599627370496)"
    by (rule rnd_evalI [of "- 1" _ _ 7205759403792794]) simp_all
  show "rnd (5404319552844595 / 36028797018963968) = Fin (5404319552844595 / 36028797018963968)"
    by (rule rnd_evalI [of "- 3" _ _ 5404319552844595]) simp_all
  show "rnd (30624477466119373 / 36028797018963968) = Fin (7656119366529843 / 9007199254740992)"
    by (rule rnd_evalI [of "- 1" _ _ 7656119366529843]) simp_all
qed

text \<open>The roundings in the sample call.\<close>

lemma rnd_sample:
  "rnd (1 / 18) = Fin (2001599834386887 / 36028797018963968)"
  "rnd (2001599834386887 / 72057594037927936) = Fin (2001599834386887 / 72057594037927936)"
  "rnd (70055994203541049 / 72057594037927936) = Fin (8756999275442631 / 9007199254740992)"
  "rnd (37466117740078777861900523425701 / 40564819207303340847894502572032) = Fin (8319149311670499 / 9007199254740992)"
  "rnd (26226282418055142646846520004153 / 81129638414606681695789005144064) = Fin (5823404518169349 / 18014398509481984)"
  "rnd (436755338862701175 / 2251799813685248) = Fin (3412151084864853 / 17592186044416)"
  "rnd (3412151084864853 / 17592186044416) = Fin (3412151084864853 / 17592186044416)"
  "rnd (405323966463344625 / 2251799813685248) = Fin 180"
  "rnd (6578744572859733 / 17592186044416) = Fin (6578744572859733 / 17592186044416)"
  "rnd (41376115591449405052764608748585 / 324518553658426726783156020576256) = Fin (2296835809958953 / 18014398509481984)"
  "rnd (172262685746921475 / 2251799813685248) = Fin (153 / 2)"
  "rnd (7924546805257557 / 17592186044416) = Fin (7924546805257557 / 17592186044416)"
  "rnd (11358149378044935347338468172759 / 162259276829213363391578010288128) = Fin (5044031582654955 / 72057594037927936)"
  "rnd (378302368699121625 / 9007199254740992) = Fin (5910974510923775 / 140737488355328)"
  "rnd (69307348952984231 / 140737488355328) = Fin (8663418619123029 / 17592186044416)"
  "rnd (27584077060966272587216194675671 / 324518553658426726783156020576256) = Fin (6124895493223875 / 72057594037927936)"
  "rnd (459367161991790625 / 9007199254740992) = Fin (7177611906121729 / 140737488355328)"
  "rnd (76484960859105961 / 140737488355328) = Fin (4780310053694123 / 8796093022208)"
  "rnd (7419137960356523 / 8796093022208) = Fin (7419137960356523 / 8796093022208)"
proof -
  show "rnd (1 / 18) = Fin (2001599834386887 / 36028797018963968)"
    by (rule rnd_evalI [of "- 5" _ _ 8006399337547548]) simp_all
  show "rnd (2001599834386887 / 72057594037927936) = Fin (2001599834386887 / 72057594037927936)"
    by (rule rnd_evalI [of "- 6" _ _ 8006399337547548]) simp_all
  show "rnd (70055994203541049 / 72057594037927936) = Fin (8756999275442631 / 9007199254740992)"
    by (rule rnd_evalI [of "- 1" _ _ 8756999275442631]) simp_all
  show "rnd (37466117740078777861900523425701 / 40564819207303340847894502572032) = Fin (8319149311670499 / 9007199254740992)"
    by (rule rnd_evalI [of "- 1" _ _ 8319149311670499]) simp_all
  show "rnd (26226282418055142646846520004153 / 81129638414606681695789005144064) = Fin (5823404518169349 / 18014398509481984)"
    by (rule rnd_evalI [of "- 2" _ _ 5823404518169349]) simp_all
  show "rnd (436755338862701175 / 2251799813685248) = Fin (3412151084864853 / 17592186044416)"
    by (rule rnd_evalI [of "7" _ _ 6824302169729706]) simp_all
  show "rnd (3412151084864853 / 17592186044416) = Fin (3412151084864853 / 17592186044416)"
    by (rule rnd_evalI [of "7" _ _ 6824302169729706]) simp_all
  show "rnd (405323966463344625 / 2251799813685248) = Fin 180"
    by (rule rnd_evalI [of "7" _ _ 6333186975989760]) simp_all
  show "rnd (6578744572859733 / 17592186044416) = Fin (6578744572859733 / 17592186044416)"
    by (rule rnd_evalI [of "8" _ _ 6578744572859733]) simp_all
  show "rnd (41376115591449405052764608748585 / 324518553658426726783156020576256) = Fin (2296835809958953 / 18014398509481984)"
    by (rule rnd_evalI [of "- 3" _ _ 4593671619917906]) simp_all
  show "rnd (172262685746921475 / 2251799813685248) = Fin (153 / 2)"
    by (rule rnd_evalI [of "6" _ _ 5383208929591296]) simp_all
  show "rnd (7924546805257557 / 17592186044416) = Fin (7924546805257557 / 17592186044416)"
    by (rule rnd_evalI [of "8" _ _ 7924546805257557]) simp_all
  show "rnd (11358149378044935347338468172759 / 162259276829213363391578010288128) = Fin (5044031582654955 / 72057594037927936)"
    by (rule rnd_evalI [of "- 4" _ _ 5044031582654955]) simp_all
  show "rnd (378302368699121625 / 9007199254740992) = Fin (5910974510923775 / 140737488355328)"
    by (rule rnd_evalI [of "5" _ _ 5910974510923775]) simp_all
  show "rnd (69307348952984231 / 140737488355328) = Fin (8663418619123029 / 17592186044416)"
    by (rule rnd_evalI [of "8" _ _ 8663418619123029]) simp_all
  show "rnd (27584077060966272587216194675671 / 324518553658426726783156020576256) = Fin (6124895493223875 / 72057594037927936)"
    by (rule rnd_evalI [of "- 4" _ _ 6124895493223875]) simp_all
  show "rnd (459367161991790625 / 9007199254740992) = Fin (7177611906121729 / 140737488355328)"
    by (rule rnd_evalI [of "5" _ _ 7177611906121729]) simp_all
  show "rnd (76484960859105961 / 140737488355328) = Fin (4780310053694123 / 8796093022208)"
    by (rule rnd_evalI [of "9" _ _ 4780310053694123]) simp_all
  show "rnd (7419137960356523 / 8796093022208) = Fin (7419137960356523 / 8796093022208)"
    by (rule rnd_evalI [of "9" _ _ 7419137960356523]) simp_all
qed

text \<open>The roundings in a call with 200 percent of payments on time.\<close>

lemma rnd_out_of_contract:
  "rnd (3152519739159347 / 4503599627370496) = Fin (3152519739159347 / 4503599627370496)"
  "rnd (236438980436951025 / 562949953421312) = Fin 420"
  "rnd 420 = Fin 420"
  "rnd (23121946948162902346752026696745 / 81129638414606681695789005144064) = Fin (5134103575202365 / 18014398509481984)"
  "rnd (385057768140177375 / 2251799813685248) = Fin (6016527627190271 / 35184372088832)"
  "rnd (20793963904499711 / 35184372088832) = Fin 591"
  "rnd (19471113219505603967277331424215 / 324518553658426726783156020576256) = Fin (1080863910568919 / 18014398509481984)"
  "rnd (81064793292668925 / 2251799813685248) = Fin 36"
  "rnd 627 = Fin 627"
  "rnd (19471113219505603967277331424215 / 649037107316853453566312041152512) = Fin (1080863910568919 / 36028797018963968)"
  "rnd (81064793292668925 / 4503599627370496) = Fin 18"
  "rnd 645 = Fin 645"
  "rnd (3602879701896397 / 36028797018963968) = Fin (3602879701896397 / 36028797018963968)"
  "rnd (270215977642229775 / 4503599627370496) = Fin 60"
  "rnd 705 = Fin 705"
  "rnd 1005 = Fin 1005"
proof -
  show "rnd (3152519739159347 / 4503599627370496) = Fin (3152519739159347 / 4503599627370496)"
    by (rule rnd_evalI [of "- 1" _ _ 6305039478318694]) simp_all
  show "rnd (236438980436951025 / 562949953421312) = Fin 420"
    by (rule rnd_evalI [of "8" _ _ 7388718138654720]) simp_all
  show "rnd 420 = Fin 420"
    by (rule rnd_evalI [of "8" _ _ 7388718138654720]) simp_all
  show "rnd (23121946948162902346752026696745 / 81129638414606681695789005144064) = Fin (5134103575202365 / 18014398509481984)"
    by (rule rnd_evalI [of "- 2" _ _ 5134103575202365]) simp_all
  show "rnd (385057768140177375 / 2251799813685248) = Fin (6016527627190271 / 35184372088832)"
    by (rule rnd_evalI [of "7" _ _ 6016527627190271]) simp_all
  show "rnd (20793963904499711 / 35184372088832) = Fin 591"
    by (rule rnd_evalI [of "9" _ _ 5198490976124928]) simp_all
  show "rnd (19471113219505603967277331424215 / 324518553658426726783156020576256) = Fin (1080863910568919 / 18014398509481984)"
    by (rule rnd_evalI [of "- 5" _ _ 8646911284551352]) simp_all
  show "rnd (81064793292668925 / 2251799813685248) = Fin 36"
    by (rule rnd_evalI [of "5" _ _ 5066549580791808]) simp_all
  show "rnd 627 = Fin 627"
    by (rule rnd_evalI [of "9" _ _ 5515150324924416]) simp_all
  show "rnd (19471113219505603967277331424215 / 649037107316853453566312041152512) = Fin (1080863910568919 / 36028797018963968)"
    by (rule rnd_evalI [of "- 6" _ _ 8646911284551352]) simp_all
  show "rnd (81064793292668925 / 4503599627370496) = Fin 18"
    by (rule rnd_evalI [of "4" _ _ 5066549580791808]) simp_all
  show "rnd 645 = Fin 645"
    by (rule rnd_evalI [of "9" _ _ 5673479999324160]) simp_all
  show "rnd (3602879701896397 / 36028797018963968) = Fin (3602879701896397 / 36028797018963968)"
    by (rule rnd_evalI [of "- 4" _ _ 7205759403792794]) simp_all
  show "rnd (270215977642229775 / 4503599627370496) = Fin 60"
    by (rule rnd_evalI [of "5" _ _ 8444249301319680]) simp_all
  show "rnd 705 = Fin 705"
    by (rule rnd_evalI [of "9" _ _ 6201245580656640]) simp_all
  show "rnd 1005 = Fin 1005"
    by (rule rnd_evalI [of "9" _ _ 8840073487319040]) simp_all
qed

text \<open>The roundings in a call with a huge percentage.\<close>

lemma rnd_huge:
  "rnd (22471164185778948846616314884862809170224712236778832159178760144716584475687620391588559665300942002640014234983924169707348721101802077811605928829934265547220986678108185659537777450155761764931635369010625721104768835292807860184239138817603404645418813835573287279993405742309964538104419541203028017152 / 25) = Fin 898846567431157972575655497282510601087482674191514843249505972371077830613885213512403872883575796839581495892816664500879388008376726024705843294387311191318575076044621991881564281922658687949181553301328033681565972891811601844845913569462296081649770695123345467828994731652611471921287674432596213760"
  "rnd 314596298600905270443076328701680178349167095515153515099532754509313927859247091118101546683214549779063333145884135496971935118989311284348861931909401118767427378951311062942620858595576428390479658506268586978149613759295930500434430727761780688746680733616527940510789196162823320128060481178079068160 = Fin 314596298600905251420223378448882388967089384466276951632419659949847133243233995877546592443547119031393260034444795674088120877297181374810365692223182730649552091365004019033436698847038421299054921695250218377349716595260545150953678047732303845591965281417308462429192943661303826845136326083752230912"
  "rnd 188757779160543150852134027069329433380253630679766170979451795969908279945940397526527955466128271418835956020666877404452872526378308824886219415333909638389731254819002411420062019308223052779432953017150131026409829957156327090572206828639382307355179168850385077457515766196782296107081795650251338547200 = PInf"
proof -
  show "rnd (22471164185778948846616314884862809170224712236778832159178760144716584475687620391588559665300942002640014234983924169707348721101802077811605928829934265547220986678108185659537777450155761764931635369010625721104768835292807860184239138817603404645418813835573287279993405742309964538104419541203028017152 / 25) = Fin 898846567431157972575655497282510601087482674191514843249505972371077830613885213512403872883575796839581495892816664500879388008376726024705843294387311191318575076044621991881564281922658687949181553301328033681565972891811601844845913569462296081649770695123345467828994731652611471921287674432596213760"
    by (rule rnd_evalI [of "1016" _ _ 5764607523034235]) simp_all
  show "rnd 314596298600905270443076328701680178349167095515153515099532754509313927859247091118101546683214549779063333145884135496971935118989311284348861931909401118767427378951311062942620858595576428390479658506268586978149613759295930500434430727761780688746680733616527940510789196162823320128060481178079068160 = Fin 314596298600905251420223378448882388967089384466276951632419659949847133243233995877546592443547119031393260034444795674088120877297181374810365692223182730649552091365004019033436698847038421299054921695250218377349716595260545150953678047732303845591965281417308462429192943661303826845136326083752230912"
    by (rule rnd_evalI [of "1014" _ _ 8070450532247928]) simp_all
  show "rnd 188757779160543150852134027069329433380253630679766170979451795969908279945940397526527955466128271418835956020666877404452872526378308824886219415333909638389731254819002411420062019308223052779432953017150131026409829957156327090572206828639382307355179168850385077457515766196782296107081795650251338547200 = PInf"
    by (rule rnd_overflow) simp
qed

text \<open>The roundings in the sum of the weights.\<close>

lemma rnd_weight_sums:
  "rnd (11709359031163289 / 18014398509481984) = Fin (1463669878895411 / 2251799813685248)"
  "rnd (28823037615171171 / 36028797018963968) = Fin (7205759403792793 / 9007199254740992)"
  "rnd (32425917317067569 / 36028797018963968) = Fin (2026619832316723 / 2251799813685248)"
  "rnd (36028797018963965 / 36028797018963968) = Fin (9007199254740991 / 9007199254740992)"
  "rnd (36028797018963967 / 36028797018963968) = Fin 1"
  "rnd (9999999999999999 / 10000000000000000) = Fin (9007199254740991 / 9007199254740992)"
proof -
  show "rnd (11709359031163289 / 18014398509481984) = Fin (1463669878895411 / 2251799813685248)"
    by (rule rnd_tieI [of "- 1" _ _ 5854679515581644]) simp_all
  show "rnd (28823037615171171 / 36028797018963968) = Fin (7205759403792793 / 9007199254740992)"
    by (rule rnd_evalI [of "- 1" _ _ 7205759403792793]) simp_all
  show "rnd (32425917317067569 / 36028797018963968) = Fin (2026619832316723 / 2251799813685248)"
    by (rule rnd_evalI [of "- 1" _ _ 8106479329266892]) simp_all
  show "rnd (36028797018963965 / 36028797018963968) = Fin (9007199254740991 / 9007199254740992)"
    by (rule rnd_evalI [of "- 1" _ _ 9007199254740991]) simp_all
  show "rnd (36028797018963967 / 36028797018963968) = Fin 1"
    by (rule rnd_evalI [of "- 1" _ _ 9007199254740992]) simp_all
  show "rnd (9999999999999999 / 10000000000000000) = Fin (9007199254740991 / 9007199254740992)"
    by (rule rnd_evalI [of "- 1" _ _ 9007199254740991]) simp_all
qed

text \<open>The roundings for perfect components.\<close>

lemma rnd_perfect:
  "rnd (3152519739159347 / 9007199254740992) = Fin (3152519739159347 / 9007199254740992)"
  "rnd (236438980436951025 / 1125899906842624) = Fin 210"
  "rnd 210 = Fin 210"
  "rnd 390 = Fin 390"
  "rnd (405323966463344625 / 4503599627370496) = Fin 90"
  "rnd 480 = Fin 480"
  "rnd 540 = Fin 540"
  "rnd 600 = Fin 600"
  "rnd 900 = Fin 900"
  "rnd 840 = Fin 840"
proof -
  show "rnd (3152519739159347 / 9007199254740992) = Fin (3152519739159347 / 9007199254740992)"
    by (rule rnd_evalI [of "- 2" _ _ 6305039478318694]) simp_all
  show "rnd (236438980436951025 / 1125899906842624) = Fin 210"
    by (rule rnd_evalI [of "7" _ _ 7388718138654720]) simp_all
  show "rnd 210 = Fin 210"
    by (rule rnd_evalI [of "7" _ _ 7388718138654720]) simp_all
  show "rnd 390 = Fin 390"
    by (rule rnd_evalI [of "8" _ _ 6860952557322240]) simp_all
  show "rnd (405323966463344625 / 4503599627370496) = Fin 90"
    by (rule rnd_evalI [of "6" _ _ 6333186975989760]) simp_all
  show "rnd 480 = Fin 480"
    by (rule rnd_evalI [of "8" _ _ 8444249301319680]) simp_all
  show "rnd 540 = Fin 540"
    by (rule rnd_evalI [of "9" _ _ 4749890231992320]) simp_all
  show "rnd 600 = Fin 600"
    by (rule rnd_evalI [of "9" _ _ 5277655813324800]) simp_all
  show "rnd 900 = Fin 900"
    by (rule rnd_evalI [of "9" _ _ 7916483719987200]) simp_all
  show "rnd 840 = Fin 840"
    by (rule rnd_evalI [of "9" _ _ 7388718138654720]) simp_all
qed

text \<open>The roundings for a total just below one and a half.\<close>

lemma rnd_half:
  "rnd (3571428571428571 / 500000000000000000) = Fin (2058788401083655 / 288230376151711744)"
  "rnd (6490371073168533133113522173285 / 2596148429267413814265248164610048) = Fin (2882303761517117 / 1152921504606846976)"
  "rnd (216172782113783775 / 144115188075855872) = Fin (6755399441055743 / 4503599627370496)"
  "rnd (6755399441055743 / 4503599627370496) = Fin (6755399441055743 / 4503599627370496)"
  "rnd (1357835287652204543 / 4503599627370496) = Fin (603 / 2)"
proof -
  show "rnd (3571428571428571 / 500000000000000000) = Fin (2058788401083655 / 288230376151711744)"
    by (rule rnd_evalI [of "- 8" _ _ 8235153604334620]) simp_all
  show "rnd (6490371073168533133113522173285 / 2596148429267413814265248164610048) = Fin (2882303761517117 / 1152921504606846976)"
    by (rule rnd_evalI [of "- 9" _ _ 5764607523034234]) simp_all
  show "rnd (216172782113783775 / 144115188075855872) = Fin (6755399441055743 / 4503599627370496)"
    by (rule rnd_evalI [of "0" _ _ 6755399441055743]) simp_all
  show "rnd (6755399441055743 / 4503599627370496) = Fin (6755399441055743 / 4503599627370496)"
    by (rule rnd_evalI [of "0" _ _ 6755399441055743]) simp_all
  show "rnd (1357835287652204543 / 4503599627370496) = Fin (603 / 2)"
    by (rule rnd_evalI [of "8" _ _ 5304044092391424]) simp_all
qed

text \<open>The roundings for a single component.\<close>

lemma rnd_partial:
  "rnd 300 = Fin 300"
  "rnd 510 = Fin 510"
proof -
  show "rnd 300 = Fin 300"
    by (rule rnd_evalI [of "8" _ _ 5277655813324800]) simp_all
  show "rnd 510 = Fin 510"
    by (rule rnd_evalI [of "8" _ _ 8972014882652160]) simp_all
qed

text \<open>The final roundings to an integer.\<close>

lemma round_totals:
  "round_half_even (7419137960356523 / 8796093022208) = 843"
  "round_half_even 1005 = 1005"
  "round_half_even 900 = 900"
  "round_half_even 840 = 840"
  "round_half_even (6755399441055743 / 4503599627370496) = 1"
  "round_half_even (603 / 2) = 302"
  "round_half_even 300 = 300"
  "round_half_even 510 = 510"
proof -
  show "round_half_even (7419137960356523 / 8796093022208) = 843"
    by (rule round_half_even_near) simp
  show "round_half_even 1005 = 1005"
    by (rule round_half_even_near) simp
  show "round_half_even 900 = 900"
    by (rule round_half_even_near) simp
  show "round_half_even 840 = 840"
    by (rule round_half_even_near) simp
  show "round_half_even (6755399441055743 / 4503599627370496) = 1"
    by (rule round_half_even_near) simp
  show "round_half_even (603 / 2) = 302"
    by (rule round_half_even_unique) simp_all
  show "round_half_even 300 = 300"
    by (rule round_half_even_near) simp
  show "round_half_even 510 = 510"
    by (rule round_half_even_near) simp
qed

section \<open>Evaluating and bounding the scorer\<close>

lemmas float_values = rnd_literals rnd_payment_examples rnd_mix_examples rnd_new_credit_examples
  rnd_sample rnd_out_of_contract rnd_huge rnd_weight_sums rnd_perfect rnd_half rnd_partial
  round_totals

lemmas scorer_defs = calculate_score_def calculate_final_score_def
  calculate_payment_history_score_def calculate_credit_utilization_score_def
  calculate_credit_age_score_def calculate_credit_mix_score_def calculate_new_credit_score_def
  int_times_float_def float_of_int_def pymin_def pymax_def fsub_def lit_def int_of_bool_def
  weights_def MIN_SCORE_def MAX_SCORE_def SCORE_RANGE_def Let_def

subsection \<open>Ranges of float operations\<close>

lemma in_rangeE:
  assumes "in_range a b x"
  obtains r where "x = Fin r" "a \<le> r" "r \<le> b"
  using assms by (cases x) simp_all

lemma representable_0: "representable 0"
  using representable_of_int [of 0] by simp

lemma representable_1: "representable 1"
  using representable_of_int [of 1] by simp

lemma representable_half: "representable (1 / 2)"
  by (rule representableI [of _ 1 "- 1"]) simp_all

lemma representable_pow2: "representable (2 ^ j)"
  by (rule representableI [of _ 1 "int j"]) simp_all

lemma rnd_representable:
  assumes "representable a" "\<bar>a\<bar> < 2 ^ 1024"
  shows "rnd a = Fin a"
proof -
  have "nearest a = a" using assms(1) by (rule nearest_id)
  then show ?thesis using assms(2) rnd_finite [of a] by simp
qed

lemma rnd_unit: "0 \<le> q \<Longrightarrow> q \<le> 1 \<Longrightarrow> in_range 0 1 (rnd q)"
  by (rule rnd_in_range [OF representable_0 representable_1]) simp_all

lemma pow2_less_overflow: "j \<le> 1023 \<Longrightarrow> (2::rat) ^ j < 2 ^ 1024"
  by (rule power_strict_increasing) simp_all

lemma rnd_pow2:
  assumes "\<bar>q\<bar> \<le> 2 ^ j" "j \<le> 1023"
  shows "bounded j (rnd q)"
  unfolding bounded_def
proof (rule rnd_in_range)
  show "representable (- (2 ^ j))" using representable_pow2 by (rule representable_minus)
  show "representable (2 ^ j)" by (rule representable_pow2)
  show "- (2 ^ 1024) < - ((2::rat) ^ j)" "(2::rat) ^ j < 2 ^ 1024"
    using pow2_less_overflow [OF assms(2)] by simp_all
  show "- (2 ^ j) \<le> q" "q \<le> 2 ^ j" using assms(1) by linarith+
qed

lemma bounded_Fin [simp]: "bounded j (Fin r) \<longleftrightarrow> \<bar>r\<bar> \<le> 2 ^ j"
  unfolding bounded_def by auto

lemma boundedE:
  assumes "bounded j x"
  obtains r where "x = Fin r" "\<bar>r\<bar> \<le> 2 ^ j"
  using assms unfolding bounded_def by (cases x) auto

lemma bounded_mono:
  assumes "bounded i x" "i \<le> j"
  shows "bounded j x"
proof -
  obtain r where r: "x = Fin r" "\<bar>r\<bar> \<le> 2 ^ i" using assms(1) by (rule boundedE)
  have "(2::rat) ^ i \<le> 2 ^ j" using assms(2) by (intro power_increasing) simp_all
  then have "\<bar>r\<bar> \<le> 2 ^ j" using r(2) by linarith
  then show ?thesis unfolding r(1) by (simp only: bounded_Fin)
qed

lemma in_range_unit_bounded: "in_range 0 1 x \<Longrightarrow> bounded 0 x"
  by (erule in_rangeE) simp

lemma bounded_fmul:
  assumes "bounded i x" "bounded j y" "i + j \<le> 1023"
  shows "bounded (i + j) (fmul x y)"
proof -
  obtain a where a: "x = Fin a" "\<bar>a\<bar> \<le> 2 ^ i" using assms(1) by (rule boundedE)
  obtain b where b: "y = Fin b" "\<bar>b\<bar> \<le> 2 ^ j" using assms(2) by (rule boundedE)
  have "\<bar>a * b\<bar> \<le> 2 ^ i * 2 ^ j"
    unfolding abs_mult using a(2) b(2) by (intro mult_mono) simp_all
  then have "\<bar>a * b\<bar> \<le> 2 ^ (i + j)" by (simp add: power_add)
  then show ?thesis unfolding a b using assms(3) by (simp only: fmul.simps rnd_pow2)
qed

lemma bounded_fadd:
  assumes "bounded i x" "bounded i y" "i < 1023"
  shows "bounded (Suc i) (fadd x y)"
proof -
  obtain a where a: "x = Fin a" "\<bar>a\<bar> \<le> 2 ^ i" using assms(1) by (rule boundedE)
  obtain b where b: "y = Fin b" "\<bar>b\<bar> \<le> 2 ^ i" using assms(2) by (rule boundedE)
  have "\<bar>a + b\<bar> \<le> 2 ^ Suc i" using a(2) b(2) by simp
  moreover have "Suc i \<le> 1023" using assms(3) by simp
  ultimately show ?thesis unfolding a b by (simp only: fadd.simps rnd_pow2)
qed

lemma bounded_fneg: "bounded i x \<Longrightarrow> bounded i (fneg x)"
  by (erule boundedE) simp

lemma bounded_fsub:
  "bounded i x \<Longrightarrow> bounded i y \<Longrightarrow> i < 1023 \<Longrightarrow> bounded (Suc i) (fsub x y)"
  unfolding fsub_def by (intro bounded_fadd bounded_fneg)

lemma bounded_pymin: "bounded i x \<Longrightarrow> bounded i y \<Longrightarrow> bounded i (pymin x y)"
  unfolding pymin_def by simp

lemma bounded_pymax: "bounded i x \<Longrightarrow> bounded i y \<Longrightarrow> bounded i (pymax x y)"
  unfolding pymax_def by simp

section \<open>Ranges of the sub-scores and of the aggregator\<close>

text \<open>
  The late penalty lies between 0 and 1, the factor it leaves between one half and 1,
  and the payment history sub-score of a percentage within 0 and 100 between 0 and 1;
  for a percentage of magnitude at most \<open>2 ^ j\<close> the sub-score has that magnitude at most.
\<close>

lemma late_penalty_range:
  assumes "flt (Fin 0) d"
  shows "in_range 0 1 (pymin (fdiv d (Fin 90)) (Fin 1))"
proof (cases d)
  case (Fin x)
  then have "0 \<le> x / 90" using assms by simp
  then have "rnd (x / 90) = PInf \<or> (\<exists>r. rnd (x / 90) = Fin r \<and> 0 \<le> r)"
    by (intro rnd_lower [OF representable_0]) simp_all
  then show ?thesis unfolding Fin pymin_def by auto
next
  case PInf
  then show ?thesis by (simp add: pymin_def)
next
  case NInf
  then show ?thesis using assms by simp
next
  case NaN
  then show ?thesis using assms by simp
qed

lemma late_factor_range:
  assumes "in_range 0 1 l"
  shows "in_range (1 / 2) 1 (fsub (Fin 1) (fmul l (lit (5 / 10))))"
proof -
  obtain x where x: "l = Fin x" "0 \<le> x" "x \<le> 1" using assms by (rule in_rangeE)
  have "in_range 0 (1 / 2) (rnd (x * (1 / 2)))"
    using x by (intro rnd_in_range [OF representable_0 representable_half]) simp_all
  then obtain h where h: "rnd (x * (1 / 2)) = Fin h" "0 \<le> h" "h \<le> 1 / 2" by (rule in_rangeE)
  have "in_range (1 / 2) 1 (rnd (1 - h))"
    using h by (intro rnd_in_range [OF representable_half representable_1]) simp_all
  then show ?thesis using h(1) unfolding x(1) by (simp add: lit_def fsub_def float_values)
qed

lemma payment_history_range:
  assumes "0 \<le> p" "p \<le> 100" "fle (Fin 0) d"
  shows "in_range 0 1 (calculate_payment_history_score (Fin p) d)"
proof -
  have "in_range 0 1 (rnd (p / 100))" using assms(1,2) by (intro rnd_unit) simp_all
  then obtain b where b: "rnd (p / 100) = Fin b" "0 \<le> b" "b \<le> 1" by (rule in_rangeE)
  show ?thesis
  proof (cases "flt (Fin 0) d")
    case True
    have "in_range (1 / 2) 1 (fsub (Fin 1) (fmul (pymin (fdiv d (Fin 90)) (Fin 1)) (lit (5 / 10))))"
      using True by (intro late_factor_range late_penalty_range)
    then obtain f where f: "fsub (Fin 1) (fmul (pymin (fdiv d (Fin 90)) (Fin 1)) (lit (5 / 10))) = Fin f"
      "1 / 2 \<le> f" "f \<le> 1" by (rule in_rangeE)
    have "0 \<le> b * f" using b f by simp
    moreover have "b * f \<le> 1 * 1" using b f by (intro mult_mono) simp_all
    ultimately have "in_range 0 1 (rnd (b * f))" by (intro rnd_unit) simp_all
    then show ?thesis
      using True b(1) f(1) unfolding calculate_payment_history_score_def by (simp add: Let_def)
  next
    case False
    then show ?thesis
      using b unfolding calculate_payment_history_score_def by (simp add: Let_def)
  qed
qed

lemma payment_history_bounded:
  assumes "\<bar>x\<bar> \<le> 2 ^ j" "j \<le> 1023"
  shows "bounded j (calculate_payment_history_score (Fin x) d)"
proof -
  have "\<bar>x / 100\<bar> \<le> \<bar>x\<bar>" by simp
  then have "bounded j (rnd (x / 100))" using assms by (intro rnd_pow2) linarith+
  then obtain b where b: "rnd (x / 100) = Fin b" "\<bar>b\<bar> \<le> 2 ^ j" by (rule boundedE)
  show ?thesis
  proof (cases "flt (Fin 0) d")
    case True
    have "in_range (1 / 2) 1 (fsub (Fin 1) (fmul (pymin (fdiv d (Fin 90)) (Fin 1)) (lit (5 / 10))))"
      using True by (intro late_factor_range late_penalty_range)
    then obtain f where f: "fsub (Fin 1) (fmul (pymin (fdiv d (Fin 90)) (Fin 1)) (lit (5 / 10))) = Fin f"
      "1 / 2 \<le> f" "f \<le> 1" by (rule in_rangeE)
    have "\<bar>b * f\<bar> \<le> \<bar>b\<bar> * 1" unfolding abs_mult using f by (intro mult_left_mono) simp_all
    then have "bounded j (rnd (b * f))" using b(2) assms(2) by (intro rnd_pow2) linarith+
    then show ?thesis
      using True b(1) f(1) unfolding calculate_payment_history_score_def by (simp add: Let_def)
  next
    case False
    then show ?thesis
      using b unfolding calculate_payment_history_score_def by (simp add: Let_def)
  qed
qed

text \<open>
  The utilization and age sub-scores and the weights are literals between 0 and 1.
\<close>

lemma utilization_range: "in_range 0 1 (calculate_credit_utilization_score u)"
  unfolding calculate_credit_utilization_score_def by (simp add: lit_def float_values)

lemma age_range: "in_range 0 1 (calculate_credit_age_score y)"
  unfolding calculate_credit_age_score_def by (simp add: lit_def float_values)

lemma weights_range: "map_of weights k = Some w \<Longrightarrow> in_range 0 1 w"
  unfolding weights_def by (auto simp: lit_def float_values split: if_splits)

text \<open>
  An integer of at most 53 bits is converted to a float exactly, one up to the largest
  float to a float in that range, and one of magnitude at most \<open>2 ^ j\<close> to a float of
  that magnitude at most.
\<close>

lemma float_of_int_exact:
  assumes "\<bar>n\<bar> \<le> 2 ^ 53"
  shows "float_of_int n = Inr (Fin (of_int n))"
proof -
  have "\<bar>(of_int n :: rat)\<bar> \<le> of_int (2 ^ 53)"
    using assms by (simp only: of_int_abs [symmetric] of_int_le_iff)
  then have "\<bar>(of_int n :: rat)\<bar> < 2 ^ 1024" by simp
  then have "rnd (of_int n) = Fin (of_int n)"
    using representable_of_int [OF assms] by (intro rnd_representable)
  then show ?thesis unfolding float_of_int_def by simp
qed

lemma representable_max_float: "representable max_float"
  unfolding max_float_def by (rule representableI [of _ "2 ^ 53 - 1" 971]) simp_all

lemma max_float_less: "max_float < 2 ^ 1024" "0 \<le> max_float"
  unfolding max_float_def by simp_all

lemma float_of_int_range:
  assumes "0 \<le> n" "of_int n \<le> max_float"
  shows "\<exists>r. float_of_int n = Inr (Fin r) \<and> rnd (of_int n) = Fin r \<and> 0 \<le> r \<and> r \<le> max_float"
proof -
  have "in_range 0 max_float (rnd (of_int n))"
    using assms max_float_less
    by (intro rnd_in_range [OF representable_0 representable_max_float]) simp_all
  then obtain r where "rnd (of_int n) = Fin r" "0 \<le> r" "r \<le> max_float" by (rule in_rangeE)
  then show ?thesis unfolding float_of_int_def by simp
qed

lemma int_times_float_bounded:
  assumes "\<bar>n\<bar> \<le> 2 ^ j" "j \<le> 1023" "in_range 0 1 w"
  shows "\<exists>t. int_times_float n w = Inr t \<and> bounded j t"
proof -
  have "\<bar>(of_int n :: rat)\<bar> \<le> of_int (2 ^ j)"
    using assms(1) by (simp only: of_int_abs [symmetric] of_int_le_iff)
  then have "bounded j (rnd (of_int n))" using assms(2) by (intro rnd_pow2) simp_all
  then obtain r where r: "rnd (of_int n) = Fin r" "\<bar>r\<bar> \<le> 2 ^ j" by (rule boundedE)
  have "bounded (j + 0) (fmul (Fin r) w)"
    using r(2) assms(2,3) by (intro bounded_fmul in_range_unit_bounded) simp_all
  then show ?thesis unfolding int_times_float_def float_of_int_def r(1) by simp
qed

text \<open>
  Each penalty of the new credit sub-score lies between 0 and its cap of 0.60, and the
  sub-score between 0.40, which is \<open>1 - 0.60\<close> exactly, and 1.
\<close>

lemma penalty_range:
  assumes "0 \<le> r" "r \<le> max_float" "0 \<le> w" "w \<le> 1" "0 \<le> cap"
  shows "in_range 0 cap (pymin (fmul (Fin r) (Fin w)) (Fin cap))"
proof -
  have "r * w \<le> max_float * 1" using assms max_float_less(2) by (intro mult_mono) simp_all
  then have "in_range 0 max_float (rnd (r * w))"
    using assms max_float_less
    by (intro rnd_in_range [OF representable_0 representable_max_float]) simp_all
  then obtain t where "rnd (r * w) = Fin t" "0 \<le> t" "t \<le> max_float" by (rule in_rangeE)
  then show ?thesis using assms(5) by (simp add: pymin_def)
qed

lemma new_credit_range:
  assumes "0 \<le> i" "of_int i \<le> max_float" "0 \<le> a" "of_int a \<le> max_float"
  shows "calculate_new_credit_score i a = Inr (new_credit_spec i a) \<and>
         in_range (3602879701896397 / 9007199254740992) 1 (new_credit_spec i a)"
proof -
  let ?cap = "5404319552844595 / 9007199254740992 :: rat"
  let ?low = "3602879701896397 / 9007199254740992 :: rat"
  obtain x where x: "float_of_int i = Inr (Fin x)" "rnd (of_int i) = Fin x" "0 \<le> x" "x \<le> max_float"
    using float_of_int_range [OF assms(1,2)] by blast
  obtain y where y: "float_of_int a = Inr (Fin y)" "rnd (of_int a) = Fin y" "0 \<le> y" "y \<le> max_float"
    using float_of_int_range [OF assms(3,4)] by blast
  have 1: "calculate_new_credit_score i a = Inr (new_credit_spec i a)"
    unfolding calculate_new_credit_score_def new_credit_spec_def int_times_float_def x y
    by (simp add: Let_def)
  have "in_range 0 ?cap (pymin (fmul (Fin x) (lit (15 / 100))) (lit (60 / 100)))"
    unfolding lit_def using penalty_range [OF x(3,4), of "5404319552844595 / 36028797018963968" ?cap]
    by (simp add: float_values)
  then obtain p where p: "pymin (fmul (Fin x) (lit (15 / 100))) (lit (60 / 100)) = Fin p"
    "0 \<le> p" "p \<le> ?cap" by (rule in_rangeE)
  have "in_range 0 ?cap (pymin (fmul (Fin y) (lit (20 / 100))) (lit (60 / 100)))"
    unfolding lit_def using penalty_range [OF y(3,4), of "3602879701896397 / 18014398509481984" ?cap]
    by (simp add: float_values)
  then obtain q where q: "pymin (fmul (Fin y) (lit (20 / 100))) (lit (60 / 100)) = Fin q"
    "0 \<le> q" "q \<le> ?cap" by (rule in_rangeE)
  have "in_range 0 ?cap (pymax (Fin p) (Fin q))"
    using p(2,3) q(2,3) by (simp add: pymax_def)
  then obtain m where m: "pymax (Fin p) (Fin q) = Fin m" "0 \<le> m" "m \<le> ?cap"
    by (rule in_rangeE)
  have "representable ?low"
    by (rule representableI [of _ 3602879701896397 "- 53"]) simp_all
  then have "in_range ?low 1 (rnd (1 - m))"
    using m(2,3) by (intro rnd_in_range [OF _ representable_1]) simp_all
  then have 2: "in_range ?low 1 (new_credit_spec i a)"
    unfolding new_credit_spec_def x(2) y(2) p(1) q(1) m(1)
    by (simp add: lit_def fsub_def float_values)
  show ?thesis using 1 2 by (rule conjI)
qed

text \<open>
  Counts of magnitude at most \<open>2 ^ 1000\<close> give finite credit mix and new credit
  sub-scores.
\<close>

lemma credit_mix_bounded:
  assumes "\<bar>s\<bar> \<le> 2 ^ 1000" "\<bar>u\<bar> \<le> 2 ^ 1000"
  shows "\<exists>m. calculate_credit_mix_score s u c = Inr m \<and> bounded 1002 m"
proof (cases "s + u + int_of_bool c = 0")
  case True
  have "bounded 0 (lit (30 / 100))" by (simp add: lit_def float_values)
  then have "bounded 1002 (lit (30 / 100))" by (rule bounded_mono) simp
  then show ?thesis using True unfolding calculate_credit_mix_score_def by (simp add: Let_def)
next
  case False
  have l: "in_range 0 1 (lit (3 / 10))" "in_range 0 1 (lit (2 / 10))"
    by (simp_all add: lit_def float_values)
  have "\<bar>min s 2\<bar> \<le> 2 ^ 1000" using assms(1) by (simp add: min_def)
  then obtain t1 where t1: "int_times_float (min s 2) (lit (3 / 10)) = Inr t1" "bounded 1000 t1"
    using int_times_float_bounded [of "min s 2" 1000, OF _ _ l(1)] by auto
  have "\<bar>min u 2\<bar> \<le> 2 ^ 1000" using assms(2) by (simp add: min_def)
  then obtain t2 where t2: "int_times_float (min u 2) (lit (2 / 10)) = Inr t2" "bounded 1000 t2"
    using int_times_float_bounded [of "min u 2" 1000, OF _ _ l(2)] by auto
  have "\<bar>int_of_bool c\<bar> \<le> 2 ^ 1000" by (simp add: int_of_bool_def)
  then obtain t3 where t3: "int_times_float (int_of_bool c) (lit (2 / 10)) = Inr t3" "bounded 1000 t3"
    using int_times_float_bounded [of "int_of_bool c" 1000, OF _ _ l(2)] by auto
  have "bounded 1001 (fadd t1 t2)"
    using bounded_fadd [OF t1(2) t2(2)] by simp
  moreover have "bounded 1001 t3" using t3(2) by (rule bounded_mono) simp
  ultimately have "bounded 1002 (fadd (fadd t1 t2) t3)"
    using bounded_fadd [of 1001 "fadd t1 t2" t3] by simp
  moreover have "bounded 1002 (lit 1)" by (simp add: lit_def float_values)
  ultimately have "bounded 1002 (pymin (fadd (fadd t1 t2) t3) (lit 1))" by (rule bounded_pymin)
  then show ?thesis
    using False t1(1) t2(1) t3(1) unfolding calculate_credit_mix_score_def by (simp add: Let_def)
qed

lemma new_credit_bounded:
  assumes "\<bar>i\<bar> \<le> 2 ^ 1000" "\<bar>a\<bar> \<le> 2 ^ 1000"
  shows "\<exists>m. calculate_new_credit_score i a = Inr m \<and> bounded 1001 m"
proof -
  have l: "in_range 0 1 (lit (15 / 100))" "in_range 0 1 (lit (20 / 100))"
    by (simp_all add: lit_def float_values)
  have c: "bounded 1000 (lit (60 / 100))" "bounded 1000 (lit 1)"
    by (simp_all add: lit_def float_values)
  obtain t1 where t1: "int_times_float i (lit (15 / 100)) = Inr t1" "bounded 1000 t1"
    using int_times_float_bounded [of i 1000, OF assms(1) _ l(1)] by auto
  obtain t2 where t2: "int_times_float a (lit (20 / 100)) = Inr t2" "bounded 1000 t2"
    using int_times_float_bounded [of a 1000, OF assms(2) _ l(2)] by auto
  have "bounded 1000 (pymax (pymin t1 (lit (60 / 100))) (pymin t2 (lit (60 / 100))))"
    using t1(2) t2(2) c(1) by (intro bounded_pymax bounded_pymin)
  then have "bounded 1001 (fsub (lit 1) (pymax (pymin t1 (lit (60 / 100))) (pymin t2 (lit (60 / 100)))))"
    using bounded_fsub [OF c(2), of "pymax (pymin t1 (lit (60 / 100))) (pymin t2 (lit (60 / 100)))"]
    by simp
  then show ?thesis
    using t1(1) t2(1) unfolding calculate_new_credit_score_def by (simp add: Let_def)
qed

text \<open>
  The aggregator loop fails only with a \<open>KeyError\<close>, and exactly when some component
  name has no weight; otherwise it returns one contribution per component, in order.
  Components of magnitude at most \<open>2 ^ 1002\<close> give contributions of at most \<open>2 ^ 1012\<close>
  and a finite total, and every score that is returned has been clamped.
\<close>

lemma final_score_loop_result:
  "(\<exists>ws' t'. final_score_loop cs ws t = Inr (ws', t')) \<and> fst ` set cs \<subseteq> fst ` set weights \<or>
   final_score_loop cs ws t = Inl KeyError \<and> \<not> fst ` set cs \<subseteq> fst ` set weights"
proof (induction cs arbitrary: ws t)
  case Nil
  then show ?case by simp
next
  case (Cons c cs)
  obtain k v where c: "c = (k, v)" by (cases c)
  show ?case
  proof (cases "map_of weights k")
    case None
    then have "k \<notin> fst ` set weights" by (simp add: map_of_eq_None_iff)
    then show ?thesis using None unfolding c by simp
  next
    case (Some w)
    then have "k \<in> fst ` set weights" using map_of_SomeD [of weights k w] by force
    then show ?thesis
      using Some Cons.IH [of "AList.update k (fmul (fmul v w) (Fin (of_int SCORE_RANGE))) ws"
          "fadd t (fmul (fmul v w) (Fin (of_int SCORE_RANGE)))"]
      unfolding c by (simp add: Let_def)
  qed
qed

lemma final_score_loop_keys:
  assumes "final_score_loop cs ws t = Inr (ws', t')" "distinct (map fst ws @ map fst cs)"
  shows "map fst ws' = map fst ws @ map fst cs"
  using assms
proof (induction cs arbitrary: ws t)
  case Nil
  then show ?case by simp
next
  case (Cons c cs)
  obtain k v where c: "c = (k, v)" by (cases c)
  obtain w where w: "map_of weights k = Some w"
    using Cons.prems(1) unfolding c by (cases "map_of weights k") simp_all
  define x where "x = fmul (fmul v w) (Fin (of_int SCORE_RANGE))"
  have l: "final_score_loop cs (AList.update k x ws) (fadd t x) = Inr (ws', t')"
    using Cons.prems(1) w unfolding c x_def by (simp add: Let_def)
  have k: "map fst (AList.update k x ws) = map fst ws @ [k]"
    using Cons.prems(2) unfolding c by (simp add: update_keys)
  have "distinct (map fst (AList.update k x ws) @ map fst cs)"
    unfolding k using Cons.prems(2) unfolding c by simp
  then have "map fst ws' = map fst (AList.update k x ws) @ map fst cs"
    using l by (rule Cons.IH [rotated])
  then show ?case unfolding k c by simp
qed

lemma py_round_no_KeyError: "py_round x \<noteq> Inl KeyError"
  by (cases x) simp_all

lemma weighted_bounded:
  assumes "bounded 1002 v" "map_of weights k = Some w"
  shows "bounded 1012 (fmul (fmul v w) (Fin (of_int SCORE_RANGE)))"
proof -
  have "bounded (1002 + 0) (fmul v w)"
    using assms(1) weights_range [OF assms(2)] by (intro bounded_fmul in_range_unit_bounded) simp_all
  moreover have "bounded 10 (Fin (of_int SCORE_RANGE))"
    by (simp add: SCORE_RANGE_def MAX_SCORE_def MIN_SCORE_def)
  ultimately have "bounded (1002 + 0 + 10) (fmul (fmul v w) (Fin (of_int SCORE_RANGE)))"
    by (rule bounded_fmul) simp
  then show ?thesis by simp
qed

lemma final_score_loop_bounded:
  assumes "list_all (\<lambda>(k, v). map_of weights k \<noteq> None \<and> bounded 1002 v) cs"
    and "bounded j t" "1012 \<le> j" "j + length cs \<le> 1022"
  shows "\<exists>ws' t'. final_score_loop cs ws t = Inr (ws', t') \<and> bounded (j + length cs) t'"
  using assms
proof (induction cs arbitrary: ws t j)
  case Nil
  then show ?case by simp
next
  case (Cons c cs)
  obtain k v where c: "c = (k, v)" by (cases c)
  obtain w where w: "map_of weights k = Some w" using Cons.prems(1) unfolding c by auto
  have v: "bounded 1002 v" using Cons.prems(1) unfolding c by simp
  define x where "x = fmul (fmul v w) (Fin (of_int SCORE_RANGE))"
  have "bounded 1012 x" unfolding x_def using v w by (rule weighted_bounded)
  then have "bounded j x" using Cons.prems(3) by (rule bounded_mono)
  then have t: "bounded (Suc j) (fadd t x)"
    using Cons.prems(2,4) by (intro bounded_fadd) simp_all
  have "\<exists>ws' t'. final_score_loop cs (AList.update k x ws) (fadd t x) = Inr (ws', t') \<and>
          bounded (Suc j + length cs) t'"
    using Cons.prems(1,3,4) t unfolding c by (intro Cons.IH) simp_all
  then show ?case using w unfolding c x_def by (simp add: Let_def)
qed

lemma final_score_clamped:
  assumes "calculate_final_score cs = Inr (fs, ws)"
  shows "\<exists>total r. final_score_loop cs [] (Fin 0) = Inr (ws, total) \<and>
            py_round (fadd total (Fin (of_int MIN_SCORE))) = Inr r \<and>
            fs = max (min r MAX_SCORE) MIN_SCORE"
  using assms unfolding calculate_final_score_def
  by (auto split: sum.splits prod.splits)

lemma final_score_in_range:
  assumes "calculate_final_score cs = Inr (fs, ws)"
  shows "300 \<le> fs \<and> fs \<le> 900"
  using final_score_clamped [OF assms] by (auto simp: MIN_SCORE_def MAX_SCORE_def)

lemma final_score_returns:
  assumes "list_all (\<lambda>(k, v). map_of weights k \<noteq> None \<and> bounded 1002 v) cs" "length cs \<le> 5"
  shows "\<exists>fs ws. calculate_final_score cs = Inr (fs, ws)"
proof -
  have "bounded 1012 (Fin 0)" by simp
  then obtain ws t where l: "final_score_loop cs [] (Fin 0) = Inr (ws, t)"
      "bounded (1012 + length cs) t"
    using final_score_loop_bounded [OF assms(1), of 1012 "Fin 0" "[]"] assms(2) by auto
  have "bounded 1017 t" using l(2) by (rule bounded_mono) (use assms(2) in simp)
  moreover have "bounded 1017 (Fin (of_int MIN_SCORE))" by (simp add: MIN_SCORE_def)
  ultimately have "bounded (Suc 1017) (fadd t (Fin (of_int MIN_SCORE)))"
    by (intro bounded_fadd) simp_all
  then obtain r where "fadd t (Fin (of_int MIN_SCORE)) = Fin r" by (rule boundedE)
  then show ?thesis using l(1) unfolding calculate_final_score_def by simp
qed

section \<open>The claims\<close>

text \<open>
  Claim C1, as stated, fails. The entry point does not return for every numeric input:
  with \<open>2 ^ 1023\<close> percent of payments on time the contribution of the payment history
  overflows to infinity and \<open>round\<close> raises \<open>OverflowError\<close>, as it does for an infinite
  percentage, and \<open>ValueError\<close> for a \<open>NaN\<close>. Nor is the score the rounded total plus
  \<open>MIN_SCORE\<close>: the sum is taken first, in float arithmetic, and for the single component
  0.007142857142857142, whose total lies just below one and a half, the score is 302
  where rounding first gives 301.
\<close>

theorem calculate_score_overflow:
  "calculate_score (Fin (2 ^ 1023)) (Fin 0) (Fin 0) (Fin 0) 0 0 False 0 0 = Inl OverflowError \<and>
   calculate_score PInf (Fin 0) (Fin 0) (Fin 0) 0 0 False 0 0 = Inl OverflowError \<and>
   calculate_score NaN (Fin 0) (Fin 0) (Fin 0) 0 0 False 0 0 = Inl ValueError \<and>
   calculate_final_score [(''payment_history'', lit (7142857142857142 / 10 ^ 18))] =
     Inr (302, [(''payment_history'', Fin (6755399441055743 / 4503599627370496))]) \<and>
   round_half_even (6755399441055743 / 4503599627370496) + MIN_SCORE = 301"
  by (simp add: scorer_defs float_values)

text \<open>
  Claim C1, amended. Whenever the entry point returns, the final score is an integer
  within 300 and 900; it returns for every finite percentage of payments on time of
  magnitude at most \<open>2 ^ 1000\<close>, every average of late days, utilization and credit age
  (infinities and \<open>NaN\<close> included) and all counts of magnitude at most \<open>2 ^ 1000\<close>,
  negative values included; and the aggregator computes
  \<open>round(total_score + MIN_SCORE)\<close>, the sum taken in float arithmetic, and clamps it to
  \<open>MIN_SCORE\<close> and \<open>MAX_SCORE\<close>.
\<close>

theorem calculate_score_range:
  "(calculate_score p d u y s n c i a = Inr (fs, ws) \<longrightarrow> 300 \<le> fs \<and> fs \<le> 900) \<and>
   (\<bar>x\<bar> \<le> 2 ^ 1000 \<and> \<bar>s\<bar> \<le> 2 ^ 1000 \<and> \<bar>n\<bar> \<le> 2 ^ 1000 \<and> \<bar>i\<bar> \<le> 2 ^ 1000 \<and> \<bar>a\<bar> \<le> 2 ^ 1000 \<longrightarrow>
      (\<exists>fs' ws'. calculate_score (Fin x) d u y s n c i a = Inr (fs', ws') \<and>
          300 \<le> fs' \<and> fs' \<le> 900)) \<and>
   (calculate_final_score cs = Inr (fs, ws) \<longrightarrow>
      (\<exists>total r. final_score_loop cs [] (Fin 0) = Inr (ws, total) \<and>
          py_round (fadd total (Fin (of_int MIN_SCORE))) = Inr r \<and>
          fs = max (min r MAX_SCORE) MIN_SCORE))"
proof (intro conjI impI)
  assume "calculate_score p d u y s n c i a = Inr (fs, ws)"
  then obtain cs where "calculate_final_score cs = Inr (fs, ws)"
    unfolding calculate_score_def by (auto split: sum.splits)
  then show "300 \<le> fs" "fs \<le> 900" using final_score_in_range by blast+
next
  assume "calculate_final_score cs = Inr (fs, ws)"
  then show "\<exists>total r. final_score_loop cs [] (Fin 0) = Inr (ws, total) \<and>
          py_round (fadd total (Fin (of_int MIN_SCORE))) = Inr r \<and>
          fs = max (min r MAX_SCORE) MIN_SCORE"
    by (rule final_score_clamped)
next
  assume h: "\<bar>x\<bar> \<le> 2 ^ 1000 \<and> \<bar>s\<bar> \<le> 2 ^ 1000 \<and> \<bar>n\<bar> \<le> 2 ^ 1000 \<and> \<bar>i\<bar> \<le> 2 ^ 1000 \<and> \<bar>a\<bar> \<le> 2 ^ 1000"
  obtain m where m: "calculate_credit_mix_score s n c = Inr m" "bounded 1002 m"
    using credit_mix_bounded [of s n c] h by auto
  obtain nc where nc: "calculate_new_credit_score i a = Inr nc" "bounded 1001 nc"
    using new_credit_bounded [of i a] h by auto
  let ?cs = "[(''payment_history'', calculate_payment_history_score (Fin x) d),
             (''credit_utilization'', calculate_credit_utilization_score u),
             (''credit_age'', calculate_credit_age_score y),
             (''credit_mix'', m),
             (''new_credit'', nc)]"
  have "bounded 1000 (calculate_payment_history_score (Fin x) d)"
    using h by (intro payment_history_bounded) simp_all
  then have 1: "bounded 1002 (calculate_payment_history_score (Fin x) d)"
    by (rule bounded_mono) simp
  have 2: "bounded 1002 (calculate_credit_utilization_score u)"
    using in_range_unit_bounded [OF utilization_range] by (rule bounded_mono) simp
  have 3: "bounded 1002 (calculate_credit_age_score y)"
    using in_range_unit_bounded [OF age_range] by (rule bounded_mono) simp
  have 4: "bounded 1002 nc" using nc(2) by (rule bounded_mono) simp
  have "list_all (\<lambda>(k, v). map_of weights k \<noteq> None \<and> bounded 1002 v) ?cs"
    using 1 2 3 4 m(2) by (simp add: weights_def)
  then obtain fs' ws' where r: "calculate_final_score ?cs = Inr (fs', ws')"
    using final_score_returns [of ?cs] by auto
  then have "300 \<le> fs' \<and> fs' \<le> 900" by (rule final_score_in_range)
  then show "\<exists>fs' ws'. calculate_score (Fin x) d u y s n c i a = Inr (fs', ws') \<and>
          300 \<le> fs' \<and> fs' \<le> 900"
    using r m(1) nc(1) unfolding calculate_score_def by simp
qed

theorem calculate_score_range_witness:
  "calculate_score (Fin 95) (Fin 5) (Fin 25) (Fin 3) 1 1 True 1 0 =
     Inr (843,
       [(''payment_history'', Fin (3412151084864853 / 17592186044416)),
        (''credit_utilization'', Fin 180),
        (''credit_age'', Fin (153 / 2)),
        (''credit_mix'', Fin (5910974510923775 / 140737488355328)),
        (''new_credit'', Fin (7177611906121729 / 140737488355328))]) \<and>
   (300 :: int) \<le> 843 \<and> (843 :: int) \<le> 900 \<and>
   (\<exists>fs' ws'. calculate_score (Fin 95) (Fin 5) (Fin 25) (Fin 3) 1 1 True 1 0 = Inr (fs', ws') \<and>
       300 \<le> fs' \<and> fs' \<le> 900)"
proof -
  let ?ws = "[(''payment_history'', Fin (3412151084864853 / 17592186044416)),
        (''credit_utilization'', Fin 180),
        (''credit_age'', Fin (153 / 2)),
        (''credit_mix'', Fin (5910974510923775 / 140737488355328)),
        (''new_credit'', Fin (7177611906121729 / 140737488355328))]"
  have e: "calculate_score (Fin 95) (Fin 5) (Fin 25) (Fin 3) 1 1 True 1 0 = Inr (843, ?ws)"
    by (simp add: scorer_defs float_values)
  have h: "\<bar>95 :: rat\<bar> \<le> 2 ^ 1000 \<and> \<bar>1 :: int\<bar> \<le> 2 ^ 1000 \<and> \<bar>1 :: int\<bar> \<le> 2 ^ 1000 \<and>
      \<bar>1 :: int\<bar> \<le> 2 ^ 1000 \<and> \<bar>0 :: int\<bar> \<le> 2 ^ 1000"
    by simp
  show ?thesis
    using calculate_score_range [of "Fin 95" "Fin 5" "Fin 25" "Fin 3" 1 1 True 1 0 843 ?ws 95 "[]"] e h
    by simp
qed

text \<open>
  Claim C2. For every percentage of payments on time within 0 and 100 and every
  average of late days that is not negative, the payment history sub-score is the
  percentage divided by 100, times \<open>1 - min(days / 90, 1) * 0.5\<close> when the average is
  positive, and it lies within 0 and 1; it is 1.00 at (100, 0), and 0.50 at (100, 90) and
  at (100, 180), the penalty being saturated from 90 days on.
\<close>

theorem payment_history_formula:
  assumes "0 \<le> p" "p \<le> 100" "fle (Fin 0) d"
  shows "calculate_payment_history_score (Fin p) d = payment_history_spec (Fin p) d \<and>
         fle (Fin 0) (calculate_payment_history_score (Fin p) d) \<and>
         fle (calculate_payment_history_score (Fin p) d) (Fin 1) \<and>
         calculate_payment_history_score (Fin 100) (Fin 0) = Fin 1 \<and>
         calculate_payment_history_score (Fin 100) (Fin 90) = lit (50 / 100) \<and>
         calculate_payment_history_score (Fin 100) (Fin 180) = lit (50 / 100)"
proof -
  have 1: "calculate_payment_history_score (Fin p) d = payment_history_spec (Fin p) d"
    unfolding calculate_payment_history_score_def payment_history_spec_def by (simp add: Let_def)
  obtain r where r: "calculate_payment_history_score (Fin p) d = Fin r" "0 \<le> r" "r \<le> 1"
    using payment_history_range [OF assms] by (rule in_rangeE)
  have 2: "fle (Fin 0) (calculate_payment_history_score (Fin p) d)"
    and 3: "fle (calculate_payment_history_score (Fin p) d) (Fin 1)"
    unfolding r(1) using r(2,3) by simp_all
  have 4: "calculate_payment_history_score (Fin 100) (Fin 0) = Fin 1"
    and 5: "calculate_payment_history_score (Fin 100) (Fin 90) = lit (50 / 100)"
    and 6: "calculate_payment_history_score (Fin 100) (Fin 180) = lit (50 / 100)"
    by (simp_all add: scorer_defs float_values)
  show ?thesis using 1 2 3 4 5 6 by (intro conjI)
qed

theorem payment_history_formula_witness:
  "calculate_payment_history_score (Fin 95) (Fin 5) = payment_history_spec (Fin 95) (Fin 5) \<and>
   fle (Fin 0) (calculate_payment_history_score (Fin 95) (Fin 5)) \<and>
   fle (calculate_payment_history_score (Fin 95) (Fin 5)) (Fin 1)"
proof -
  have h: "(0::rat) \<le> 95" "(95::rat) \<le> 100" "fle (Fin 0) (Fin 5)" by simp_all
  show ?thesis using payment_history_formula [OF h] by blast
qed

text \<open>
  Claim C3. The utilization sub-score is the step function with inclusive upper bucket
  boundaries: 0.95 up to 10, 1.00 above 10 and up to 30, 0.85 above 30 and up to 50, 0.60
  above 50 and up to 75, and 0.30 otherwise (a \<open>NaN\<close> included); in particular it is 0.95
  at 10, 1.00 at 10.01, 1.00 at 30 and 0.85 at 30.01.
\<close>

theorem utilization_step_function:
  "calculate_credit_utilization_score u = utilization_spec u \<and>
   calculate_credit_utilization_score (Fin 10) = lit (95/100) \<and>
   calculate_credit_utilization_score (lit (1001/100)) = lit 1 \<and>
   calculate_credit_utilization_score (Fin 30) = lit 1 \<and>
   calculate_credit_utilization_score (lit (3001/100)) = lit (85/100)"
proof -
  have "calculate_credit_utilization_score u = utilization_spec u"
    unfolding calculate_credit_utilization_score_def utilization_spec_def
    by (cases u) auto
  moreover have "calculate_credit_utilization_score (Fin 10) = lit (95/100)"
    by (simp add: calculate_credit_utilization_score_def)
  moreover have "calculate_credit_utilization_score (lit (1001/100)) = lit 1"
    by (simp add: calculate_credit_utilization_score_def lit_def float_values)
  moreover have "calculate_credit_utilization_score (Fin 30) = lit 1"
    by (simp add: calculate_credit_utilization_score_def)
  moreover have "calculate_credit_utilization_score (lit (3001/100)) = lit (85/100)"
    by (simp add: calculate_credit_utilization_score_def lit_def float_values)
  ultimately show ?thesis by blast
qed

text \<open>
  Claim C4. For loan counts that are not negative and either value of the credit card
  flag, the credit mix sub-score is 0.30 when both counts are zero and there is no card,
  and otherwise the least of 1.0 and
  \<open>min(secured, 2) * 0.3 + min(unsecured, 2) * 0.2 + card * 0.2\<close>; it is 0.30 at
  (0, 0, false) and 1.00 at (5, 5, true).
\<close>

theorem credit_mix_formula:
  assumes "0 \<le> s" "0 \<le> u"
  shows "calculate_credit_mix_score s u c = Inr (credit_mix_spec s u c) \<and>
         calculate_credit_mix_score 0 0 False = Inr (lit (30 / 100)) \<and>
         calculate_credit_mix_score 5 5 True = Inr (lit 1)"
proof -
  have m: "\<bar>min s 2\<bar> \<le> 2 ^ 53" "\<bar>min u 2\<bar> \<le> 2 ^ 53" "\<bar>int_of_bool c\<bar> \<le> 2 ^ 53"
    using assms by (simp_all add: int_of_bool_def)
  have z: "s + u + int_of_bool c = 0 \<longleftrightarrow> s = 0 \<and> u = 0 \<and> \<not> c"
    using assms by (auto simp: int_of_bool_def)
  have b: "(of_int (int_of_bool c) :: rat) = (if c then 1 else 0)"
    by (simp add: int_of_bool_def)
  have 1: "calculate_credit_mix_score s u c = Inr (credit_mix_spec s u c)"
    unfolding calculate_credit_mix_score_def credit_mix_spec_def int_times_float_def
      float_of_int_exact [OF m(1)] float_of_int_exact [OF m(2)] float_of_int_exact [OF m(3)]
      Let_def z b
    by simp
  have 2: "calculate_credit_mix_score 0 0 False = Inr (lit (30 / 100))"
    and 3: "calculate_credit_mix_score 5 5 True = Inr (lit 1)"
    by (simp_all add: scorer_defs float_values)
  show ?thesis using 1 2 3 by (intro conjI)
qed

theorem credit_mix_formula_witness:
  "calculate_credit_mix_score 1 1 True = Inr (credit_mix_spec 1 1 True) \<and>
   credit_mix_spec 1 1 True = lit (70 / 100)"
proof -
  have h: "(0::int) \<le> 1" by simp
  have "credit_mix_spec 1 1 True = lit (70 / 100)"
    by (simp add: credit_mix_spec_def scorer_defs float_values)
  then show ?thesis using credit_mix_formula [OF h h, of True] by blast
qed

text \<open>
  Claim C5, as stated, fails: a count of \<open>2 ^ 1024\<close> inquiries is not negative, and the
  product of the count and 0.15 raises \<open>OverflowError\<close>, the count being too large to be
  converted to a float.
\<close>

theorem new_credit_overflow:
  "calculate_new_credit_score (2 ^ 1024) 0 = Inl OverflowError"
  by (simp add: scorer_defs float_values rnd_overflow)

text \<open>
  Claim C5, amended. For every pair of counts that are not negative and not above the
  largest float, the new credit sub-score is
  \<open>1.0 - max(min(inquiries * 0.15, 0.60), min(accounts * 0.20, 0.60))\<close>, the larger of the
  two penalties alone, and it lies within 0.40 and 1.0; it is 0.40 at (4, 0) and at (0, 4),
  and 0.60 at (2, 2).
\<close>

theorem new_credit_formula:
  assumes "0 \<le> i" "of_int i \<le> max_float" "0 \<le> a" "of_int a \<le> max_float"
  shows "calculate_new_credit_score i a = Inr (new_credit_spec i a) \<and>
         fle (lit (40 / 100)) (new_credit_spec i a) \<and>
         fle (new_credit_spec i a) (lit 1) \<and>
         calculate_new_credit_score 4 0 = Inr (lit (40 / 100)) \<and>
         calculate_new_credit_score 0 4 = Inr (lit (40 / 100)) \<and>
         calculate_new_credit_score 2 2 = Inr (lit (60 / 100))"
proof -
  note r = new_credit_range [OF assms]
  obtain v where v: "new_credit_spec i a = Fin v" "3602879701896397 / 9007199254740992 \<le> v" "v \<le> 1"
    using r by (elim conjE in_rangeE)
  have 1: "fle (lit (40 / 100)) (new_credit_spec i a)" and 2: "fle (new_credit_spec i a) (lit 1)"
    unfolding v(1) using v(2,3) by (simp_all add: lit_def float_values)
  have 3: "calculate_new_credit_score 4 0 = Inr (lit (40 / 100))"
    and 4: "calculate_new_credit_score 0 4 = Inr (lit (40 / 100))"
    and 5: "calculate_new_credit_score 2 2 = Inr (lit (60 / 100))"
    by (simp_all add: scorer_defs float_values)
  show ?thesis using r 1 2 3 4 5 by (intro conjI) blast+
qed

theorem new_credit_formula_witness:
  "calculate_new_credit_score 1 0 = Inr (new_credit_spec 1 0) \<and>
   fle (lit (40 / 100)) (new_credit_spec 1 0) \<and>
   fle (new_credit_spec 1 0) (lit 1) \<and>
   new_credit_spec 1 0 = lit (85 / 100)"
proof -
  have h: "(0::int) \<le> 1" "of_int 1 \<le> max_float" "(0::int) \<le> 0" "of_int 0 \<le> max_float"
    by (simp_all add: max_float_def)
  have "new_credit_spec 1 0 = lit (85 / 100)"
    by (simp add: new_credit_spec_def scorer_defs float_values)
  then show ?thesis using new_credit_formula [OF h] by blast
qed

text \<open>
  Claim C6, as stated, fails: a mapping that lacks \<open>new_credit\<close> is accepted, and the
  missing component is left out of the total and of the contributions.
\<close>

theorem final_score_missing_component:
  "calculate_final_score
     [(''payment_history'', Fin 1), (''credit_utilization'', Fin 1),
      (''credit_age'', Fin 1), (''credit_mix'', Fin 1)] =
   Inr (840,
     [(''payment_history'', Fin 210), (''credit_utilization'', Fin 180),
      (''credit_age'', Fin 90), (''credit_mix'', Fin 60)])"
  by (simp add: scorer_defs float_values)

text \<open>
  Claim C6, amended. The aggregator iterates over the entries that are present: it fails
  with a \<open>KeyError\<close> exactly when the mapping holds a name that has no configured weight,
  and when it returns, the contributions have the names of the given mapping, so that a
  missing component is omitted and not reported.
\<close>

theorem final_score_key_error:
  "(calculate_final_score cs = Inl KeyError \<longleftrightarrow> \<not> fst ` set cs \<subseteq> fst ` set weights) \<and>
   (calculate_final_score cs = Inr (fs, ws) \<and> distinct (map fst cs) \<longrightarrow> map fst ws = map fst cs)"
proof -
  have 1: "calculate_final_score cs = Inl KeyError \<longleftrightarrow> \<not> fst ` set cs \<subseteq> fst ` set weights"
    using final_score_loop_result [of cs "[]" "Fin 0"] py_round_no_KeyError
    unfolding calculate_final_score_def
    by (auto split: sum.splits prod.splits)
  have 2: "map fst ws = map fst cs"
    if "calculate_final_score cs = Inr (fs, ws)" "distinct (map fst cs)"
  proof -
    have "\<exists>t. final_score_loop cs [] (Fin 0) = Inr (ws, t)"
      using that(1) unfolding calculate_final_score_def
      by (auto split: sum.splits prod.splits)
    then obtain t where "final_score_loop cs [] (Fin 0) = Inr (ws, t)" by blast
    then show ?thesis using final_score_loop_keys [of cs "[]" "Fin 0" ws t] that(2) by simp
  qed
  show ?thesis using 1 2 by blast
qed

theorem final_score_key_error_witness:
  "calculate_final_score [(''bonus'', Fin 1)] = Inl KeyError \<and>
   calculate_final_score [(''payment_history'', Fin 1)] =
     Inr (510, [(''payment_history'', Fin 210)]) \<and>
   map fst [(''payment_history'', Fin 210 :: pyfloat)] = [''payment_history'']"
proof -
  have e: "calculate_final_score [(''payment_history'', Fin 1)] =
      Inr (510, [(''payment_history'', Fin 210)])"
    by (simp add: scorer_defs float_values)
  show ?thesis
    using e final_score_key_error [of "[(''bonus'', Fin 1)]"]
      final_score_key_error [of "[(''payment_history'', Fin 1)]" 510 "[(''payment_history'', Fin 210)]"]
    by (simp add: weights_def)
qed





lemma perfect_components:
  "calculate_final_score
     [(''payment_history'', Fin 1), (''credit_utilization'', Fin 1), (''credit_age'', Fin 1),
      (''credit_mix'', Fin 1), (''new_credit'', Fin 1)] =
   Inr (900,
     [(''payment_history'', Fin 210), (''credit_utilization'', Fin 180), (''credit_age'', Fin 90),
      (''credit_mix'', Fin 60), (''new_credit'', Fin 60)])"
  by (simp add: scorer_defs float_values)



text \<open>
  Claim C8. Without late days the payment history sub-score is the percentage divided by
  100, with no upper clamp: for some percentage above 100 (here 200) it exceeds 1, and
  the final score of the entry point for that input is still within 300 and 900.
\<close>

theorem payment_history_unclamped:
  "calculate_payment_history_score p (Fin 0) = fdiv p (Fin 100) \<and>
   (\<exists>x. 100 < x \<and>
        flt (Fin 1) (calculate_payment_history_score (Fin x) (Fin 0)) \<and>
        (\<exists>fs ws. calculate_score (Fin x) (Fin 0) (Fin 0) (Fin 0) 0 0 False 0 0 = Inr (fs, ws) \<and>
                 300 \<le> fs \<and> fs \<le> 900)) \<and>
   calculate_payment_history_score (Fin 200) (Fin 0) = Fin 2 \<and>
   calculate_score (Fin 200) (Fin 0) (Fin 0) (Fin 0) 0 0 False 0 0 =
     Inr (900,
       [(''payment_history'', Fin 420),
        (''credit_utilization'', Fin (6016527627190271 / 35184372088832)),
        (''credit_age'', Fin 36),
        (''credit_mix'', Fin 18),
        (''new_credit'', Fin 60)])"
proof -
  have 1: "calculate_payment_history_score p (Fin 0) = fdiv p (Fin 100)"
    by (simp add: calculate_payment_history_score_def)
  have 2: "calculate_payment_history_score (Fin 200) (Fin 0) = Fin 2"
    by (simp add: scorer_defs float_values)
  have 3: "calculate_score (Fin 200) (Fin 0) (Fin 0) (Fin 0) 0 0 False 0 0 =
     Inr (900,
       [(''payment_history'', Fin 420),
        (''credit_utilization'', Fin (6016527627190271 / 35184372088832)),
        (''credit_age'', Fin 36),
        (''credit_mix'', Fin 18),
        (''new_credit'', Fin 60)])"
    by (simp add: scorer_defs float_values)
  have "(100::rat) < 200 \<and>
        flt (Fin 1) (calculate_payment_history_score (Fin 200) (Fin 0)) \<and>
        (\<exists>fs ws. calculate_score (Fin 200) (Fin 0) (Fin 0) (Fin 0) 0 0 False 0 0 = Inr (fs, ws) \<and>
                 300 \<le> fs \<and> fs \<le> 900)"
    unfolding 2 3 by simp
  then have 4: "\<exists>x. 100 < x \<and>
        flt (Fin 1) (calculate_payment_history_score (Fin x) (Fin 0)) \<and>
        (\<exists>fs ws. calculate_score (Fin x) (Fin 0) (Fin 0) (Fin 0) 0 0 False 0 0 = Inr (fs, ws) \<and>
                 300 \<le> fs \<and> fs \<le> 900)"
    by (rule exI)
  show ?thesis using 1 2 3 4 by (intro conjI)
qed

text \<open>
  Claim C9. The sample call of the source (95 percent on time, 5 days late on average,
  utilization 25, credit age 3, one secured and one unsecured loan, a credit card, one
  inquiry, no new account; the integer arguments of the call are floats of the same
  value) has the component scores \<open>0.95 * (1 - 5/90 * 0.5)\<close>, about 0.9236, then 1.00,
  0.85, 0.70 and 0.85, the weighted contributions of about 193.9583, 180, 76.5, 42 and
  51, whose sum is about 543.4583, and the final score 843.
\<close>

theorem sample_call:
  "calculate_payment_history_score (Fin 95) (Fin 5) = Fin (8319149311670499 / 9007199254740992) \<and>
   \<bar>8319149311670499 / 9007199254740992 - 95 / 100 * (1 - 5 / 90 * (5 / 10))\<bar> < (1 / 10 ^ 15 :: rat) \<and>
   \<bar>8319149311670499 / 9007199254740992 - 9236 / 10000\<bar> < (1 / 10 ^ 4 :: rat) \<and>
   calculate_credit_utilization_score (Fin 25) = Fin 1 \<and>
   calculate_credit_age_score (Fin 3) = lit (85 / 100) \<and>
   calculate_credit_mix_score 1 1 True = Inr (lit (70 / 100)) \<and>
   calculate_new_credit_score 1 0 = Inr (lit (85 / 100)) \<and>
   calculate_score (Fin 95) (Fin 5) (Fin 25) (Fin 3) 1 1 True 1 0 =
     Inr (843,
       [(''payment_history'', Fin (3412151084864853 / 17592186044416)),
        (''credit_utilization'', Fin 180),
        (''credit_age'', Fin (153 / 2)),
        (''credit_mix'', Fin (5910974510923775 / 140737488355328)),
        (''new_credit'', Fin (7177611906121729 / 140737488355328))]) \<and>
   \<bar>3412151084864853 / 17592186044416 - 1939583 / 10000\<bar> < (1 / 10 ^ 4 :: rat) \<and>
   \<bar>5910974510923775 / 140737488355328 - 42\<bar> < (1 / 10 ^ 13 :: rat) \<and>
   \<bar>7177611906121729 / 140737488355328 - 51\<bar> < (1 / 10 ^ 13 :: rat) \<and>
   \<bar>3412151084864853 / 17592186044416 + 180 + 153 / 2 + 5910974510923775 / 140737488355328
       + 7177611906121729 / 140737488355328 - 5434583 / 10000\<bar> < (1 / 10 ^ 4 :: rat)"
  by (simp add: scorer_defs float_values)

text \<open>
  Claim C10. With no secured loan, one unsecured loan and no credit card the credit mix
  sub-score is exactly 0.20, below the 0.30 that an account without products gets: 0.30
  is not a lower bound of the credit mix function.
\<close>

theorem credit_mix_below_floor:
  "calculate_credit_mix_score 0 1 False = Inr (lit (20/100)) \<and>
   calculate_credit_mix_score 0 0 False = Inr (lit (30/100)) \<and>
   flt (lit (20/100)) (lit (30/100))"
  by (simp add: scorer_defs float_values)

end
